theory Spec2Isabelle
  imports Complex_Main "HOL-Library.Sublist" "HOL-Library.Log_Nat"
begin

section \<open>Data model of \<open>submit_to_google_play.py\<close>\<close>

text \<open>
  The script drives the Google Play publishing protocol from one function,
  \<open>upload_to_google_play\<close>: open an edit, upload the bundle with a resumable upload,
  update the release track, commit the edit. The remote service, the file system and the
  client library are not part of the script; they are a parameter of the model (the record
  \<open>env\<close> below), which says for every call what it answers or what it raises.

  Console output is not modelled, apart from the progress line of the upload loop, which
  is the event \<open>Progress\<close> of the trace; \<open>print\<close> is taken not to raise.
\<close>

subsection \<open>Python floats\<close>

text \<open>
  \<open>rollout_percentage\<close> is a Python \<open>float\<close>, an IEEE 754 binary64 number: a finite
  value (a rational, \<open>Finite q\<close>, where \<open>Finite 0\<close> is \<open>0.0\<close>), the negative zero
  \<open>-0.0\<close>, an infinity, or \<open>nan\<close>. The function uses two operations on it: the
  comparison \<open>rollout_percentage < 100\<close> and the quotient \<open>rollout_percentage / 100.0\<close>.

  The comparison of a float with a number is by value; \<open>-0.0\<close> compares as 0, and
  \<open>nan\<close> compares false with everything. (The command line's default, the int
  \<open>100\<close>, behaves as the float \<open>100.0\<close>: it is not below 100, so the quotient is not
  taken.)
\<close>

datatype pyfloat = Finite rat | NegZero | PosInf | NegInf | NaN

fun float_lt :: "pyfloat \<Rightarrow> rat \<Rightarrow> bool" where
  "float_lt (Finite q) k = (q < k)"
| "float_lt NegZero k = (0 < k)"
| "float_lt PosInf k = False"
| "float_lt NegInf k = True"
| "float_lt NaN k = False"

fun float_gt :: "pyfloat \<Rightarrow> rat \<Rightarrow> bool" where
  "float_gt (Finite q) k = (k < q)"
| "float_gt NegZero k = (k < 0)"
| "float_gt PosInf k = True"
| "float_gt NegInf k = False"
| "float_gt NaN k = False"

fun float_le :: "pyfloat \<Rightarrow> rat \<Rightarrow> bool" where
  "float_le (Finite q) k = (q \<le> k)"
| "float_le NegZero k = (0 \<le> k)"
| "float_le PosInf k = False"
| "float_le NegInf k = True"
| "float_le NaN k = False"

fun float_ge :: "pyfloat \<Rightarrow> rat \<Rightarrow> bool" where
  "float_ge (Finite q) k = (k \<le> q)"
| "float_ge NegZero k = (k \<le> 0)"
| "float_ge PosInf k = True"
| "float_ge NegInf k = False"
| "float_ge NaN k = False"

text \<open>
  The quotient is the exact quotient rounded to the nearest binary64 number, ties to the
  even significand. For \<open>0 < x\<close>, \<open>flog2 x\<close> is the exponent \<open>e\<close> with
  \<open>2 powi e \<le> x < 2 powi (e + 1)\<close>. A binary64 number has 53 significant bits and no
  exponent below -1022 (below \<open>2 powi (- 1022)\<close> are the subnormal numbers, the multiples
  of \<open>2 powi (- 1074)\<close>), so \<open>round64 x\<close> is the multiple of \<open>2 powi (e - 52)\<close> nearest
  to \<open>x\<close>, with \<open>e\<close> at least -1022. A rounded value of \<open>2 powi 1024\<close> or more is an
  infinity, and a rounded value of 0 keeps the sign of the dividend. The divisor is the
  constant \<open>100.0\<close>, so the division raises nothing.
\<close>

definition flog2 :: "rat \<Rightarrow> int" where
  "flog2 q = (if 1 \<le> q then bitlen \<lfloor>q\<rfloor> - 1 else - bitlen (\<lceil>1 / q\<rceil> - 1))"

definition round_half_even :: "rat \<Rightarrow> int" where
  "round_half_even y =
     (let n = \<lfloor>y\<rfloor>; f = y - of_int n
      in if f < 1 / 2 then n else if 1 / 2 < f then n + 1 else if even n then n else n + 1)"

definition round64 :: "rat \<Rightarrow> rat" where
  "round64 x =
     (let e = max (flog2 x) (- 1022); u = 2 powi (e - 52)
      in of_int (round_half_even (x / u)) * u)"

definition round_to_float :: "bool \<Rightarrow> rat \<Rightarrow> pyfloat" where
  "round_to_float neg x =
     (let m = (if x = 0 then 0 else round64 x)
      in if 2 powi 1024 \<le> m then (if neg then NegInf else PosInf)
         else if m = 0 then (if neg then NegZero else Finite 0)
         else Finite (if neg then - m else m))"

fun div_100 :: "pyfloat \<Rightarrow> pyfloat" where
  "div_100 (Finite q) = round_to_float (q < 0) (\<bar>q\<bar> / 100)"
| "div_100 NegZero = NegZero"
| "div_100 PosInf = PosInf"
| "div_100 NegInf = NegInf"
| "div_100 NaN = NaN"

text \<open>
  The floats among the values of the type: the finite ones are the rationals that the
  rounding leaves as they are.
\<close>

fun is_float :: "pyfloat \<Rightarrow> bool" where
  "is_float (Finite q) = (q = 0 \<or> (round64 \<bar>q\<bar> = \<bar>q\<bar> \<and> \<bar>q\<bar> < 2 powi 1024))"
| "is_float x = True"

subsection \<open>Exceptions and outcomes\<close>

text \<open>
  \<open>KeyError k\<close> is what a missing key \<open>k\<close> of a dictionary raises; \<open>Exception m\<close> is
  any other exception of class \<open>Exception\<close> raised by a library or the service, with
  \<open>str(e) = m\<close>; \<open>BaseException m\<close> is one that is not an \<open>Exception\<close>
  (\<open>KeyboardInterrupt\<close>, \<open>SystemExit\<close>), which \<open>except Exception\<close> does not catch.
\<close>

datatype exn = KeyError string | Exception string | BaseException string

fun is_Exception :: "exn \<Rightarrow> bool" where
  "is_Exception (KeyError k) = True"
| "is_Exception (Exception m) = True"
| "is_Exception (BaseException m) = False"

datatype outcome = Return bool | Raise exn

subsection \<open>The release descriptor (the dictionary \<open>release_config\<close>)\<close>

record release_note =
  language :: string
  note_text :: string

record release_config =
  versionCodes :: "int list"
  releaseNotes :: "release_note list"
  status :: string
  userFraction :: "pyfloat option"

text \<open>
  Lines 189--208: the dictionary is created with \<open>versionCodes\<close> and \<open>releaseNotes\<close>,
  then \<open>status\<close> is set in each of the three branches, and \<open>userFraction\<close> only in
  the staged-rollout branch (the key is absent otherwise: \<open>None\<close>).
\<close>

definition build_release_config ::
  "int \<Rightarrow> string \<Rightarrow> pyfloat \<Rightarrow> string \<Rightarrow> bool \<Rightarrow> release_config" where
  "build_release_config version_code track rollout_percentage release_notes draft =
     (let notes = [\<lparr>language = ''en-US'', note_text = release_notes\<rparr>] in
      if draft then
        \<lparr>versionCodes = [version_code], releaseNotes = notes,
         status = ''draft'', userFraction = None\<rparr>
      else if track = ''production'' \<and> float_lt rollout_percentage 100 then
        \<lparr>versionCodes = [version_code], releaseNotes = notes,
         status = ''inProgress'', userFraction = Some (div_100 rollout_percentage)\<rparr>
      else
        \<lparr>versionCodes = [version_code], releaseNotes = notes,
         status = ''completed'', userFraction = None\<rparr>)"

subsection \<open>The environment and the trace of calls\<close>

text \<open>
  A chunk acknowledgment is the pair \<open>(status, response)\<close> that \<open>next_chunk()\<close>
  returns; either component may be \<open>None\<close>. A status object is truthy whenever it is
  not \<open>None\<close>. The response is the dictionary of the uploaded bundle.

  The environment gives, for each call the function makes outside itself, what the call
  returns (\<open>Inr\<close>, or \<open>None\<close> for a call whose value is not used) or raises
  (\<open>Inl\<close>, or \<open>Some\<close>). Every call but \<open>next_chunk\<close> is made at most once in a run,
  so an answer that depends on the arguments only is as general as a service with a state;
  the answers of \<open>next_chunk\<close> are indexed by the number of the call. The trace records
  the calls in the order the function makes them, the progress lines it prints, and the
  exception that ended the \<open>try\<close> block, if any: \<open>LoadCredentials\<close> is
  \<open>from_service_account_file\<close>, \<open>BuildService\<close> is \<open>build\<close>, \<open>EditsInsert\<close> is
  \<open>edits().insert(...).execute()\<close>, \<open>GetSize\<close> is \<open>os.path.getsize\<close>, \<open>NewMedia\<close> is
  \<open>MediaFileUpload(...)\<close>, \<open>NextChunk\<close> is \<open>bundle_request.next_chunk()\<close>,
  \<open>TracksUpdate\<close> is \<open>tracks().update(...).execute()\<close> with the release descriptor of
  its body, and \<open>EditsCommit\<close> is \<open>edits().commit(...).execute()\<close>.
\<close>

type_synonym 'st chunk_ack = "'st option \<times> (string \<rightharpoonup> int) option"

record 'st env =
  service_account_file_exists :: bool
  from_service_account_file :: "exn option"
  build_service :: "exn option"
  edits_insert :: "string \<Rightarrow> exn + (string \<rightharpoonup> string)"
  getsize :: "string \<Rightarrow> exn + nat"
  MediaFileUpload :: "string \<Rightarrow> exn option"
  next_chunk :: "string \<Rightarrow> string \<Rightarrow> string \<Rightarrow> nat \<Rightarrow> exn + 'st chunk_ack"
  tracks_update :: "string \<Rightarrow> string \<Rightarrow> string \<Rightarrow> release_config \<Rightarrow> exn option"
  edits_commit :: "string \<Rightarrow> string \<Rightarrow> exn option"

datatype 'st event =
    LoadCredentials
  | BuildService
  | EditsInsert string
  | GetSize string
  | NewMedia string
  | NextChunk string string
  | Progress 'st
  | TracksUpdate string string string release_config
  | EditsCommit string string
  | Raised exn

subsection \<open>The resumable upload loop (lines 174--179)\<close>

text \<open>
  \<open>while response is None: status, response = bundle_request.next_chunk(); if status: print
  progress\<close>. The loop has no bound of its own: when the service never sends a response
  it does not return, which is the value \<open>None\<close> here. \<open>acks i\<close> is what the
  \<open>i\<close>-th call of \<open>next_chunk\<close> does (counted from 0).
\<close>

partial_function (option) upload_loop ::
  "string \<Rightarrow> string \<Rightarrow> (nat \<Rightarrow> exn + 'st chunk_ack) \<Rightarrow> nat \<Rightarrow> 'st event list
     \<Rightarrow> ('st event list \<times> (exn + (string \<rightharpoonup> int))) option" where
  "upload_loop package_name edit_id acks i tr =
     (case acks i of
        Inl e \<Rightarrow> Some (tr @ [NextChunk package_name edit_id, Raised e], Inl e)
      | Inr (st, response) \<Rightarrow>
          let tr' = tr @ [NextChunk package_name edit_id]
                       @ (case st of None \<Rightarrow> [] | Some s \<Rightarrow> [Progress s])
          in (case response of
                None \<Rightarrow> upload_loop package_name edit_id acks (Suc i) tr'
              | Some r \<Rightarrow> Some (tr', Inr r)))"

subsection \<open>The function \<open>upload_to_google_play\<close>\<close>

text \<open>
  Lines 183--249, after the upload loop has returned \<open>response\<close>: read the version
  code, build the release descriptor, send it with \<open>tracks().update(...).execute()\<close>,
  then \<open>commit(...).execute()\<close>, and return \<open>True\<close>. The body of the track update is
  \<open>{'releases': [release_config]}\<close>; the event records \<open>release_config\<close>.
\<close>

definition release_and_commit ::
  "'st env \<Rightarrow> string \<Rightarrow> string \<Rightarrow> string \<Rightarrow> pyfloat \<Rightarrow> string \<Rightarrow> bool
     \<Rightarrow> (string \<rightharpoonup> int) \<Rightarrow> 'st event list \<Rightarrow> 'st event list \<times> (exn + bool)" where
  "release_and_commit env package_name edit_id track rollout_percentage release_notes draft
       response tr =
     (case response ''versionCode'' of
        None \<Rightarrow> (tr @ [Raised (KeyError ''versionCode'')], Inl (KeyError ''versionCode''))
      | Some version_code \<Rightarrow>
          let release_config =
                build_release_config version_code track rollout_percentage release_notes draft;
              tr1 = tr @ [TracksUpdate package_name edit_id track release_config]
          in (case tracks_update env package_name edit_id track release_config of
                Some e \<Rightarrow> (tr1 @ [Raised e], Inl e)
              | None \<Rightarrow>
                  let tr2 = tr1 @ [EditsCommit package_name edit_id]
                  in (case edits_commit env package_name edit_id of
                        Some e \<Rightarrow> (tr2 @ [Raised e], Inl e)
                      | None \<Rightarrow> (tr2, Inr True))))"

text \<open>
  The \<open>try\<close> block, lines 144--249. Every call that reaches outside the script may
  raise; the first one that does ends the block. Building a request object
  (\<open>service.edits().insert(...)\<close> and the like, before \<open>.execute()\<close>) is local and is
  not a step of its own.
\<close>

definition try_block ::
  "'st env \<Rightarrow> string \<Rightarrow> string \<Rightarrow> string \<Rightarrow> pyfloat \<Rightarrow> string \<Rightarrow> bool
     \<Rightarrow> ('st event list \<times> (exn + bool)) option" where
  "try_block env package_name aab_path track rollout_percentage release_notes draft =
     (case from_service_account_file env of
        Some e \<Rightarrow> Some ([LoadCredentials, Raised e], Inl e)
      | None \<Rightarrow>
     (case build_service env of
        Some e \<Rightarrow> Some ([LoadCredentials, BuildService, Raised e], Inl e)
      | None \<Rightarrow>
     (case edits_insert env package_name of
        Inl e \<Rightarrow>
          Some ([LoadCredentials, BuildService, EditsInsert package_name, Raised e], Inl e)
      | Inr edit \<Rightarrow>
     (let tr = [LoadCredentials, BuildService, EditsInsert package_name] in
      case edit ''id'' of
        None \<Rightarrow> Some (tr @ [Raised (KeyError ''id'')], Inl (KeyError ''id''))
      | Some edit_id \<Rightarrow>
     (case getsize env aab_path of
        Inl e \<Rightarrow> Some (tr @ [GetSize aab_path, Raised e], Inl e)
      | Inr size_bytes \<Rightarrow>
     (case MediaFileUpload env aab_path of
        Some e \<Rightarrow> Some (tr @ [GetSize aab_path, NewMedia aab_path, Raised e], Inl e)
      | None \<Rightarrow>
     (case upload_loop package_name edit_id
             (next_chunk env package_name edit_id aab_path) 0
             (tr @ [GetSize aab_path, NewMedia aab_path]) of
        None \<Rightarrow> None
      | Some (tr', Inl e) \<Rightarrow> Some (tr', Inl e)
      | Some (tr', Inr response) \<Rightarrow>
          Some (release_and_commit env package_name edit_id track rollout_percentage
                  release_notes draft response tr'))))))))"

text \<open>
  The whole function, lines 116--264: the check of the credentials file comes before the
  \<open>try\<close>; \<open>except Exception\<close> turns an exception of class \<open>Exception\<close> into the
  return value \<open>False\<close>, and lets any other one through. The result is the trace of
  calls with the outcome, or \<open>None\<close> when the upload loop does not return.
\<close>

definition upload_to_google_play ::
  "'st env \<Rightarrow> string \<Rightarrow> string \<Rightarrow> string \<Rightarrow> pyfloat \<Rightarrow> string \<Rightarrow> bool
     \<Rightarrow> ('st event list \<times> outcome) option" where
  "upload_to_google_play env package_name aab_path track rollout_percentage release_notes draft =
     (if \<not> service_account_file_exists env then Some ([], Return False)
      else
        (case try_block env package_name aab_path track rollout_percentage release_notes draft of
           None \<Rightarrow> None
         | Some (tr, Inr b) \<Rightarrow> Some (tr, Return b)
         | Some (tr, Inl e) \<Rightarrow>
             if is_Exception e then Some (tr, Return False) else Some (tr, Raise e)))"

subsection \<open>Reading a trace\<close>

text \<open>The four remote operations of the protocol, and the one an event stands for.\<close>

datatype step = OpenEdit | BundleUpload | TrackUpdate | CommitEdit

fun remote_step :: "'st event \<Rightarrow> step option" where
  "remote_step (EditsInsert p) = Some OpenEdit"
| "remote_step (NextChunk p e) = Some BundleUpload"
| "remote_step (TracksUpdate p e t c) = Some TrackUpdate"
| "remote_step (EditsCommit p e) = Some CommitEdit"
| "remote_step ev = None"

definition protocol_steps :: "'st event list \<Rightarrow> step list" where
  "protocol_steps tr = List.map_filter remote_step tr"

fun is_Raised :: "'st event \<Rightarrow> bool" where
  "is_Raised (Raised e) = True"
| "is_Raised ev = False"

definition failed :: "'st event list \<Rightarrow> bool" where
  "failed tr = list_ex is_Raised tr"

fun shown_progress :: "'st event list \<Rightarrow> 'st list" where
  "shown_progress [] = []"
| "shown_progress (Progress s # tr) = s # shown_progress tr"
| "shown_progress (ev # tr) = shown_progress tr"

fun submitted :: "'st event list \<Rightarrow> release_config list" where
  "submitted [] = []"
| "submitted (TracksUpdate p e t c # tr) = c # submitted tr"
| "submitted (ev # tr) = submitted tr"

text \<open>
  What a run of the loop writes to the trace: \<open>chunk_trace p e acks i n\<close> is the
  events of the \<open>n\<close> calls of \<open>next_chunk\<close> from call \<open>i\<close> on, each followed by the
  progress it shows, if any.
\<close>

fun progress_of :: "exn + 'st chunk_ack \<Rightarrow> 'st event list" where
  "progress_of (Inr (Some s, response)) = [Progress s]"
| "progress_of a = []"

fun chunk_trace ::
  "string \<Rightarrow> string \<Rightarrow> (nat \<Rightarrow> exn + 'st chunk_ack) \<Rightarrow> nat \<Rightarrow> nat \<Rightarrow> 'st event list" where
  "chunk_trace p e acks i 0 = []"
| "chunk_trace p e acks i (Suc n) = (NextChunk p e # progress_of (acks i)) @ chunk_trace p e acks (Suc i) n"

text \<open>A trace in which a raised exception, if there is one, is the last event.\<close>

fun nothing_after_failure :: "'st event list \<Rightarrow> bool" where
  "nothing_after_failure [] = True"
| "nothing_after_failure (ev # tr) = (if is_Raised ev then tr = [] else nothing_after_failure tr)"

text \<open>
  The four remote operations come in the order of the protocol: the steps of a trace are
  an initial part of open-edit, one or more bundle-upload calls, track-update, commit.
\<close>

definition in_order :: "step list \<Rightarrow> bool" where
  "in_order ss \<longleftrightarrow>
     (\<exists>k>0. prefix ss (OpenEdit # replicate k BundleUpload @ [TrackUpdate, CommitEdit]))"

text \<open>
  The error a step ends with, read from the environment: what the call of the event
  raises, or the \<open>KeyError\<close> of the key that the function reads from its answer
  (\<open>edit['id']\<close> after the edit is opened, \<open>response['versionCode']\<close> after the call
  of \<open>next_chunk\<close> that returns the response). \<open>a\<close> is the path of the bundle and
  \<open>k\<close> the number of calls of \<open>next_chunk\<close> made before the event.
\<close>

fun step_error :: "'st env \<Rightarrow> string \<Rightarrow> nat \<Rightarrow> 'st event \<Rightarrow> exn option" where
  "step_error env a k LoadCredentials = from_service_account_file env"
| "step_error env a k BuildService = build_service env"
| "step_error env a k (EditsInsert p) =
     (case edits_insert env p of
        Inl x \<Rightarrow> Some x
      | Inr edit \<Rightarrow> (case edit ''id'' of None \<Rightarrow> Some (KeyError ''id'') | Some e \<Rightarrow> None))"
| "step_error env a k (GetSize f) =
     (case getsize env f of Inl x \<Rightarrow> Some x | Inr n \<Rightarrow> None)"
| "step_error env a k (NewMedia f) = MediaFileUpload env f"
| "step_error env a k (NextChunk p e) =
     (case next_chunk env p e a k of
        Inl x \<Rightarrow> Some x
      | Inr (st, None) \<Rightarrow> None
      | Inr (st, Some response) \<Rightarrow>
          (case response ''versionCode'' of
             None \<Rightarrow> Some (KeyError ''versionCode'')
           | Some v \<Rightarrow> None))"
| "step_error env a k (TracksUpdate p e t c) = tracks_update env p e t c"
| "step_error env a k (EditsCommit p e) = edits_commit env p e"
| "step_error env a k (Progress s) = None"
| "step_error env a k (Raised x) = None"

fun is_NextChunk :: "'st event \<Rightarrow> bool" where
  "is_NextChunk (NextChunk p e) = True"
| "is_NextChunk ev = False"

definition chunk_calls :: "'st event list \<Rightarrow> nat" where
  "chunk_calls tr = length (filter is_NextChunk tr)"

text \<open>
  A trace that stops at the first step that ends with an error: after that step comes the
  exception, with at most the progress line of the last chunk before it, and nothing
  else.
\<close>

fun ends_with :: "exn \<Rightarrow> 'st event list \<Rightarrow> bool" where
  "ends_with x [Raised y] = (y = x)"
| "ends_with x [Progress s, Raised y] = (y = x)"
| "ends_with x tr = False"

fun stops_at_error :: "'st env \<Rightarrow> string \<Rightarrow> nat \<Rightarrow> 'st event list \<Rightarrow> bool" where
  "stops_at_error env a k [] = True"
| "stops_at_error env a k (ev # tr) =
     (case step_error env a k ev of
        Some x \<Rightarrow> ends_with x tr
      | None \<Rightarrow> stops_at_error env a (if is_NextChunk ev then Suc k else k) tr)"

text \<open>
  Three conditions on the environment, for the statements below: the edit is opened with
  the identifier \<open>e\<close> (the credentials load, the client is built, the call returns an
  edit that has an \<open>id\<close>); the bundle file is ready for the upload (its size is read and
  the media object made); the upload ends at call \<open>m\<close> of \<open>next_chunk\<close> with
  \<open>response\<close> (the calls before it return no response, and none raises).
\<close>

definition edit_opened :: "'st env \<Rightarrow> string \<Rightarrow> string \<Rightarrow> bool" where
  "edit_opened env p e \<longleftrightarrow>
     from_service_account_file env = None \<and> build_service env = None \<and>
     (\<exists>edit. edits_insert env p = Inr edit \<and> edit ''id'' = Some e)"

definition media_ready :: "'st env \<Rightarrow> string \<Rightarrow> bool" where
  "media_ready env a \<longleftrightarrow> (\<exists>n. getsize env a = Inr n) \<and> MediaFileUpload env a = None"

definition upload_ends ::
  "'st env \<Rightarrow> string \<Rightarrow> string \<Rightarrow> string \<Rightarrow> nat \<Rightarrow> (string \<rightharpoonup> int) \<Rightarrow> bool" where
  "upload_ends env p e a m response \<longleftrightarrow>
     (\<forall>j<m. \<exists>s. next_chunk env p e a j = Inr (s, None)) \<and>
     (\<exists>s. next_chunk env p e a m = Inr (s, Some response))"

subsection \<open>Scripted environments\<close>

text \<open>
  A service that accepts everything: the upload takes three calls of \<open>next_chunk\<close>
  (two progress reports of 40 and 80, then the response with version code 32). The status
  object is a number here. \<open>forbidden_env\<close> is the same service refusing the track
  update; \<open>no_credentials_env\<close> has no service-account file.
\<close>

definition scripted_acks :: "nat \<Rightarrow> exn + nat chunk_ack" where
  "scripted_acks i =
     (if i = 0 then Inr (Some 40, None)
      else if i = 1 then Inr (Some 80, None)
      else Inr (None, Some [''versionCode'' \<mapsto> 32]))"

definition ok_env :: "nat env" where
  "ok_env =
     \<lparr>service_account_file_exists = True,
      from_service_account_file = None,
      build_service = None,
      edits_insert = (\<lambda>p. Inr [''id'' \<mapsto> ''edit-1'']),
      getsize = (\<lambda>a. Inr 47185920),
      MediaFileUpload = (\<lambda>a. None),
      next_chunk = (\<lambda>p e a. scripted_acks),
      tracks_update = (\<lambda>p e t c. None),
      edits_commit = (\<lambda>p e. None)\<rparr>"

definition forbidden_env :: "nat env" where
  "forbidden_env = ok_env\<lparr>tracks_update := (\<lambda>p e t c. Some (Exception ''403 Forbidden''))\<rparr>"

definition no_credentials_env :: "nat env" where
  "no_credentials_env = ok_env\<lparr>service_account_file_exists := False\<rparr>"

section \<open>Rounding\<close>


lemma round_half_even_nonneg: "0 \<le> y \<Longrightarrow> 0 \<le> round_half_even y"
  by (auto simp: round_half_even_def Let_def)

lemma flog2_bounds:
  assumes "0 < q"
  shows "2 powi flog2 q \<le> q" "q < 2 powi (flog2 q + 1)"
proof -
  have "2 powi flog2 q \<le> q \<and> q < 2 powi (flog2 q + 1)"
  proof (cases "1 \<le> q")
    case True
    define n where "n = \<lfloor>q\<rfloor>"
    have n: "1 \<le> n" "of_int n \<le> q" "q < of_int n + 1"
      using True unfolding n_def by linarith+
    then have pos: "0 < n" by simp
    from bitlen_bounds [OF pos]
    have lo: "2 ^ nat (bitlen n - 1) \<le> n" and hi: "n < 2 ^ nat (bitlen n)" by simp_all
    have bl: "1 \<le> bitlen n"
      using pos bitlen_eq_zero_iff [of n] bitlen_nonneg [of n] by linarith
    have f: "flog2 q = bitlen n - 1"
      using True by (simp add: flog2_def n_def)
    have "(2::rat) powi (bitlen n - 1) = 2 ^ nat (bitlen n - 1)"
      using bl by (simp add: power_int_def)
    also have "\<dots> \<le> of_int n" using lo by (simp only: numeral_power_le_of_int_cancel_iff)
    finally have a: "2 powi flog2 q \<le> q" using n f by simp
    have "n + 1 \<le> 2 ^ nat (bitlen n)" using hi by simp
    then have "(of_int (n + 1) :: rat) \<le> 2 ^ nat (bitlen n)"
      by (simp only: of_int_le_numeral_power_cancel_iff)
    also have "\<dots> = 2 powi (bitlen n)"
      using bl by (simp add: power_int_def)
    finally have "q < 2 powi (flog2 q + 1)" using n f by simp
    with a show ?thesis by simp
  next
    case False
    define r where "r = 1 / q"
    define c where "c = \<lceil>r\<rceil>"
    define k where "k = bitlen (c - 1)"
    have r: "1 < r" using False assms by (simp add: r_def)
    have c: "r \<le> of_int c" "of_int c - 1 < r" unfolding c_def by linarith+
    with r have pos: "0 < c - 1" by linarith
    from bitlen_bounds [OF pos]
    have lo: "2 ^ nat (k - 1) \<le> c - 1" and hi: "c - 1 < 2 ^ nat k" by (simp_all add: k_def)
    have bl: "1 \<le> k"
      using pos bitlen_eq_zero_iff [of "c - 1"] bitlen_nonneg [of "c - 1"] unfolding k_def
      by linarith
    have f: "flog2 q = - k"
      using False by (simp add: flog2_def k_def c_def r_def)
    have "c \<le> 2 ^ nat k" using hi by simp
    then have "(of_int c :: rat) \<le> 2 ^ nat k"
      by (simp only: of_int_le_numeral_power_cancel_iff)
    then have "r \<le> 2 ^ nat k" using c by linarith
    then have "1 / 2 ^ nat k \<le> 1 / r"
      using r by (intro divide_left_mono) simp_all
    moreover have "(2::rat) powi (- k) = 1 / 2 ^ nat k"
      using bl by (simp add: power_int_def field_simps)
    ultimately have a: "2 powi flog2 q \<le> q" using f assms by (simp add: r_def)
    have "(2 ^ nat (k - 1) :: rat) \<le> of_int (c - 1)"
      using lo by (simp only: numeral_power_le_of_int_cancel_iff)
    then have lt: "2 ^ nat (k - 1) < r" using c by simp
    have "1 / r < 1 / 2 ^ nat (k - 1)"
      using lt r by (intro divide_strict_left_mono) simp_all
    moreover have "(2::rat) powi (- k + 1) = 1 / 2 ^ nat (k - 1)"
    proof -
      have "- k + 1 = - (k - 1)" by simp
      then show ?thesis using bl by (simp add: power_int_def field_simps)
    qed
    ultimately have "q < 2 powi (flog2 q + 1)" using f assms by (simp add: r_def)
    with a show ?thesis by simp
  qed
  then show "2 powi flog2 q \<le> q" "q < 2 powi (flog2 q + 1)" by simp_all
qed


lemma round64_nonneg: "0 \<le> x \<Longrightarrow> 0 \<le> round64 x"
  by (simp add: round64_def Let_def round_half_even_nonneg)

lemma flog2_less:
  assumes "0 < x" and "x < 2 powi n"
  shows "flog2 x < n"
proof (rule ccontr)
  assume "\<not> flog2 x < n"
  then have "(2::rat) powi n \<le> 2 powi flog2 x"
    by (intro power_int_increasing) simp_all
  with flog2_bounds(1) [OF assms(1)] assms(2) show False by simp
qed




lemma round_to_float_neg: "0 \<le> x \<Longrightarrow> float_le (round_to_float True x) 0"
  using round64_nonneg [of x] by (auto simp: round_to_float_def Let_def)

lemma round_to_float_neg_cases:
  "0 \<le> x \<Longrightarrow> float_lt (round_to_float True x) 0 \<or> round_to_float True x = NegZero"
  using round64_nonneg [of x] by (auto simp: round_to_float_def Let_def)


text \<open>A quotient of at most half the smallest subnormal number rounds to zero.\<close>

lemma pow2_pred: "(2::rat) powi (k - 1) = 2 powi k / 2"
  using power_int_diff [of "2::rat" k 1] by simp

lemma round64_underflow:
  assumes "0 < x" and "x \<le> 2 powi (- 1074) / 2"
  shows "round64 x = 0"
proof -
  define u :: rat where "u = 2 powi (- 1074)"
  have u: "0 < u" unfolding u_def by (rule zero_less_power_int) simp
  from assms(2) have xu: "x \<le> u / 2" by (simp only: u_def)
  with u have "x < u" by simp
  then have "x < 2 powi (- 1074)" by (simp only: u_def)
  from flog2_less [OF assms(1) this] have e: "max (flog2 x) (- 1022) = - 1022" by simp
  from xu have half: "x / u \<le> 1 / 2" using u by (simp add: pos_divide_le_eq)
  have pos: "0 < x / u" using assms(1) u by simp
  from half have "x / u < 1" by linarith
  with pos have fl: "\<lfloor>x / u\<rfloor> = 0" by (simp add: floor_eq_iff)
  have "round_half_even (x / u) = 0"
    using half by (auto simp: round_half_even_def Let_def fl)
  moreover have "round64 x = of_int (round_half_even (x / u)) * u"
    by (simp add: round64_def Let_def e u_def del: power_int_numeral_neg_numeral)
  ultimately show ?thesis by simp
qed

lemma div_100_smallest_negative: "div_100 (Finite (- (2 powi (- 1074)))) = NegZero"
proof -
  define w :: rat where "w = 2 powi (- 1074)"
  have w: "0 < w" unfolding w_def by (rule zero_less_power_int) simp
  have "w / 100 \<le> w / 2" using w by simp
  then have "w / 100 \<le> 2 powi (- 1074) / 2" by (simp only: w_def)
  moreover have "0 < w / 100" using w by simp
  ultimately have "round64 (w / 100) = 0" by (intro round64_underflow)
  moreover have "div_100 (Finite (- w)) = round_to_float True (w / 100)"
    using w by simp
  ultimately have "div_100 (Finite (- w)) = NegZero"
    using w by (simp add: round_to_float_def)
  then show ?thesis by (simp only: w_def)
qed

lemma is_float_smallest_negative: "is_float (Finite (- (2 powi (- 1074))))"
proof -
  define w :: rat where "w = 2 powi (- 1074)"
  have w: "0 < w" unfolding w_def by (rule zero_less_power_int) simp
  have "(2::rat) powi (- 1074) < 2 powi (- 1022)"
    by (intro power_int_strict_increasing) simp_all
  then have "w < 2 powi (- 1022)" by (simp only: w_def)
  from flog2_less [OF w this] have e: "max (flog2 w) (- 1022) = - 1022" by simp
  have "round_half_even 1 = 1" by (simp add: round_half_even_def)
  moreover have "round64 w = of_int (round_half_even (w / w)) * w"
    by (simp add: round64_def Let_def e del: power_int_numeral_neg_numeral flip: w_def)
  ultimately have "round64 w = w" using w by simp
  moreover have "(2::rat) powi (- 1074) < 2 powi 1024"
    by (intro power_int_strict_increasing) simp_all
  then have "w < 2 powi 1024" by (simp only: w_def)
  ultimately have "is_float (Finite (- w))" using w by simp
  then show ?thesis by (simp only: w_def)
qed

section \<open>The upload loop\<close>

lemma upload_loop_skip:
  "\<forall>j<n. \<exists>s. acks (i + j) = Inr (s, None) \<Longrightarrow>
   upload_loop p e acks i tr = upload_loop p e acks (i + n) (tr @ chunk_trace p e acks i n)"
proof (induction n arbitrary: i tr)
  case 0
  then show ?case by simp
next
  case (Suc n)
  from Suc.prems obtain s where s: "acks i = Inr (s, None)" by force
  have rest: "\<forall>j<n. \<exists>s. acks (Suc i + j) = Inr (s, None)"
    using Suc.prems by (metis Suc_less_eq add_Suc_shift)
  have "upload_loop p e acks i tr = upload_loop p e acks (Suc i) (tr @ NextChunk p e # progress_of (acks i))"
    by (subst upload_loop.simps) (cases s; simp add: s)
  also have "\<dots> = upload_loop p e acks (Suc i + n) ((tr @ NextChunk p e # progress_of (acks i)) @ chunk_trace p e acks (Suc i) n)"
    by (rule Suc.IH [OF rest])
  finally show ?case by simp
qed

lemma upload_loop_final:
  "acks i = Inr (st, Some r) \<Longrightarrow>
   upload_loop p e acks i tr = Some (tr @ chunk_trace p e acks i (Suc 0), Inr r)"
  by (subst upload_loop.simps) (cases st; simp)

lemma upload_loop_raise:
  "acks i = Inl x \<Longrightarrow>
   upload_loop p e acks i tr = Some (tr @ chunk_trace p e acks i (Suc 0) @ [Raised x], Inl x)"
  by (subst upload_loop.simps) simp

lemma chunk_trace_add:
  "chunk_trace p e acks i (n + m) = chunk_trace p e acks i n @ chunk_trace p e acks (i + n) m"
  by (induction n arbitrary: i) simp_all

lemma upload_loop_shape_aux:
  assumes "upload_loop p e acks i tr = Some y"
  shows "\<exists>n. (\<forall>j<n. \<exists>s. acks (i + j) = Inr (s, None)) \<and>
     ((\<exists>x. acks (i + n) = Inl x \<and> snd y = Inl x \<and>
            fst y = tr @ chunk_trace p e acks i (Suc n) @ [Raised x]) \<or>
      (\<exists>s r. acks (i + n) = Inr (s, Some r) \<and> snd y = Inr r \<and>
            fst y = tr @ chunk_trace p e acks i (Suc n)))"
proof (induction p e acks i tr y rule: upload_loop.raw_induct)
  case (1 loop p e acks i tr y)
  show ?case
  proof (cases "acks i")
    case (Inl x)
    with 1(2) have "snd y = Inl x" "fst y = tr @ chunk_trace p e acks i (Suc 0) @ [Raised x]"
      by auto
    with Inl show ?thesis by (intro exI [of _ 0]) simp
  next
    case (Inr a)
    obtain s response where a: "a = (s, response)" by (cases a)
    show ?thesis
    proof (cases response)
      case (Some r)
      with 1(2) Inr a have "snd y = Inr r" "fst y = tr @ chunk_trace p e acks i (Suc 0)"
        by (cases s; auto)+
      with Inr a Some show ?thesis by (intro exI [of _ 0]) simp
    next
      case None
      with 1(2) Inr a
      have call: "loop p e acks (Suc i) (tr @ NextChunk p e # progress_of (acks i)) = Some y"
        by (cases s; simp)
      from 1(1) [OF call] obtain n where
        skip: "\<forall>j<n. \<exists>s. acks (Suc i + j) = Inr (s, None)" and
        fin: "(\<exists>x. acks (Suc i + n) = Inl x \<and> snd y = Inl x \<and>
                fst y = (tr @ NextChunk p e # progress_of (acks i)) @ chunk_trace p e acks (Suc i) (Suc n) @ [Raised x]) \<or>
              (\<exists>s r. acks (Suc i + n) = Inr (s, Some r) \<and> snd y = Inr r \<and>
                fst y = (tr @ NextChunk p e # progress_of (acks i)) @ chunk_trace p e acks (Suc i) (Suc n))"
        by blast
      have skip': "\<forall>j<Suc n. \<exists>s. acks (i + j) = Inr (s, None)"
      proof (intro allI impI)
        fix j assume "j < Suc n"
        show "\<exists>s. acks (i + j) = Inr (s, None)"
        proof (cases j)
          case 0
          then show ?thesis using Inr a None by simp
        next
          case (Suc k)
          then show ?thesis using skip \<open>j < Suc n\<close> by simp
        qed
      qed
      from fin show ?thesis
        by (intro exI [of _ "Suc n"] conjI skip') auto
    qed
  qed
qed (rule assms)

lemma upload_loop_shape:
  assumes "upload_loop p e acks i tr = Some (tr', res)"
  shows "\<exists>n. (\<forall>j<n. \<exists>s. acks (i + j) = Inr (s, None)) \<and>
     ((\<exists>x. acks (i + n) = Inl x \<and> res = Inl x \<and>
            tr' = tr @ chunk_trace p e acks i (Suc n) @ [Raised x]) \<or>
      (\<exists>s r. acks (i + n) = Inr (s, Some r) \<and> res = Inr r \<and>
            tr' = tr @ chunk_trace p e acks i (Suc n)))"
  using upload_loop_shape_aux [OF assms] by simp


text \<open>
  The loop fails to return only when every call of \<open>next_chunk\<close> answers without a
  response.
\<close>

lemma upload_loop_None:
  assumes "upload_loop p e acks i tr = None"
  shows "\<exists>s. acks (i + j) = Inr (s, None)"
proof (rule ccontr)
  assume stop: "\<not> (\<exists>s. acks (i + j) = Inr (s, None))"
  define m where "m = (LEAST k. \<not> (\<exists>s. acks (i + k) = Inr (s, None)))"
  have at_m: "\<not> (\<exists>s. acks (i + m) = Inr (s, None))"
    unfolding m_def using stop by (rule LeastI)
  have before: "\<forall>k<m. \<exists>s. acks (i + k) = Inr (s, None)"
    unfolding m_def using not_less_Least by blast
  have skip: "upload_loop p e acks i tr
      = upload_loop p e acks (i + m) (tr @ chunk_trace p e acks i m)"
    by (rule upload_loop_skip [OF before])
  show False
  proof (cases "acks (i + m)")
    case (Inl x)
    from upload_loop_raise [of acks "i + m" x p e "tr @ chunk_trace p e acks i m"] Inl skip assms
    show False by simp
  next
    case (Inr ack)
    obtain s response where ack: "ack = (s, response)" by (cases ack)
    with at_m Inr obtain r where "response = Some r" by (cases response) auto
    with Inr ack have "acks (i + m) = Inr (s, Some r)" by simp
    from upload_loop_final [of acks "i + m" s r p e "tr @ chunk_trace p e acks i m"] this skip assms
    show False by simp
  qed
qed

lemma chunk_trace_progress:
  "\<forall>k<length ps. acks (i + k) = Inr (Some (ps ! k), None) \<Longrightarrow>
   chunk_trace p e acks i (length ps) = concat (map (\<lambda>s. [NextChunk p e, Progress s]) ps)"
proof (induction ps arbitrary: i)
  case Nil
  then show ?case by simp
next
  case (Cons s ps)
  from Cons.prems have first: "acks i = Inr (Some s, None)" by force
  have "\<forall>k<length ps. acks (Suc i + k) = Inr (Some (ps ! k), None)"
  proof (intro allI impI)
    fix k assume "k < length ps"
    then have "acks (i + Suc k) = Inr (Some ((s # ps) ! Suc k), None)"
      using Cons.prems by (metis Suc_less_eq length_Cons)
    then show "acks (Suc i + k) = Inr (Some (ps ! k), None)" by simp
  qed
  from Cons.IH [OF this] first show ?case by simp
qed

section \<open>Traces\<close>

lemma protocol_steps_Nil [simp]: "protocol_steps [] = []"
  by (simp add: protocol_steps_def)

lemma protocol_steps_Cons [simp]:
  "protocol_steps (ev # tr) =
     (case remote_step ev of None \<Rightarrow> protocol_steps tr | Some s \<Rightarrow> s # protocol_steps tr)"
  by (simp add: protocol_steps_def split: option.splits)

lemma protocol_steps_append [simp]:
  "protocol_steps (tr @ tr') = protocol_steps tr @ protocol_steps tr'"
  by (induction tr) (simp_all split: option.splits)

lemma protocol_steps_progress_of [simp]: "protocol_steps (progress_of a) = []"
  by (cases a rule: progress_of.cases) simp_all

lemma protocol_steps_chunk_trace [simp]:
  "protocol_steps (chunk_trace p e acks i n) = replicate n BundleUpload"
  by (induction n arbitrary: i) simp_all

lemma failed_Nil [simp]: "\<not> failed []"
  by (simp add: failed_def)

lemma failed_Cons [simp]: "failed (ev # tr) \<longleftrightarrow> is_Raised ev \<or> failed tr"
  by (simp add: failed_def)

lemma failed_append [simp]: "failed (tr @ tr') \<longleftrightarrow> failed tr \<or> failed tr'"
  by (simp add: failed_def)

lemma failed_progress_of [simp]: "\<not> failed (progress_of a)"
  by (cases a rule: progress_of.cases) simp_all

lemma failed_chunk_trace [simp]: "\<not> failed (chunk_trace p e acks i n)"
  by (induction n arbitrary: i) simp_all

lemma nothing_after_failure_append:
  "\<not> failed tr \<Longrightarrow> nothing_after_failure (tr @ tr') = nothing_after_failure tr'"
  by (induction tr) simp_all

lemma submitted_append [simp]: "submitted (tr @ tr') = submitted tr @ submitted tr'"
  by (induction tr rule: submitted.induct) simp_all

lemma submitted_progress_of [simp]: "submitted (progress_of a) = []"
  by (cases a rule: progress_of.cases) simp_all

lemma submitted_chunk_trace [simp]: "submitted (chunk_trace p e acks i n) = []"
  by (induction n arbitrary: i) simp_all

lemma shown_progress_append [simp]:
  "shown_progress (tr @ tr') = shown_progress tr @ shown_progress tr'"
  by (induction tr rule: shown_progress.induct) simp_all

lemma chunk_calls_Nil [simp]: "chunk_calls [] = 0"
  by (simp add: chunk_calls_def)

lemma chunk_calls_Cons [simp]:
  "chunk_calls (ev # tr) = (if is_NextChunk ev then Suc (chunk_calls tr) else chunk_calls tr)"
  by (simp add: chunk_calls_def)

lemma chunk_calls_append [simp]: "chunk_calls (tr @ tr') = chunk_calls tr + chunk_calls tr'"
  by (simp add: chunk_calls_def)

lemma stops_at_error_chunk_trace:
  assumes "\<forall>j<n. \<exists>s. next_chunk env p e a (i + j) = Inr (s, None)"
  shows "stops_at_error env a i (chunk_trace p e (next_chunk env p e a) i n @ tr)
           = stops_at_error env a (i + n) tr"
  using assms
proof (induction n arbitrary: i)
  case 0
  then show ?case by simp
next
  case (Suc n)
  from Suc.prems obtain s where s: "next_chunk env p e a i = Inr (s, None)" by force
  have rest: "\<forall>j<n. \<exists>s. next_chunk env p e a (Suc i + j) = Inr (s, None)"
    using Suc.prems by (metis Suc_less_eq add_Suc_shift)
  from Suc.IH [OF rest] s show ?case by (cases s) simp_all
qed

lemma stops_at_error_split:
  assumes "stops_at_error env a k tr"
    and "tr = pre @ ev # post"
    and "step_error env a (k + chunk_calls pre) ev = Some x"
  shows "ends_with x post"
  using assms
proof (induction pre arbitrary: k tr)
  case Nil
  then show ?case by simp
next
  case (Cons ev' pre)
  then have tr: "tr = ev' # pre @ ev # post" by simp
  show ?case
  proof (cases "step_error env a k ev'")
    case None
    with Cons.prems(1) tr
    have "stops_at_error env a (if is_NextChunk ev' then Suc k else k) (pre @ ev # post)"
      by simp
    from Cons.IH [OF this refl] Cons.prems(3) show ?thesis
      by (cases "is_NextChunk ev'") simp_all
  next
    case (Some y)
    with Cons.prems(1) tr have "ends_with y (pre @ ev # post)" by simp
    then have "(\<exists>s. ev = Progress s) \<or> (\<exists>z. ev = Raised z)"
      by (cases "(y, pre @ ev # post)" rule: ends_with.cases)
         (auto simp: append_eq_Cons_conv Cons_eq_append_conv)
    with Cons.prems(3) show ?thesis by auto
  qed
qed

lemma ends_with_iff:
  "ends_with x tr \<longleftrightarrow> tr = [Raised x] \<or> (\<exists>s. tr = [Progress s, Raised x])"
  by (cases "(x, tr)" rule: ends_with.cases) auto

section \<open>The shape of every run\<close>

lemma release_and_commit_cases [consumes 1, case_names no_version track commit committed]:
  assumes "release_and_commit env p e t r n d response tr = (tr', res)"
  obtains
    (no_version) "response ''versionCode'' = None"
      "res = Inl (KeyError ''versionCode'')" "tr' = tr @ [Raised (KeyError ''versionCode'')]"
  | (track) v x where "response ''versionCode'' = Some v"
      "tracks_update env p e t (build_release_config v t r n d) = Some x"
      "res = Inl x"
      "tr' = tr @ [TracksUpdate p e t (build_release_config v t r n d), Raised x]"
  | (commit) v x where "response ''versionCode'' = Some v"
      "tracks_update env p e t (build_release_config v t r n d) = None"
      "edits_commit env p e = Some x"
      "res = Inl x"
      "tr' = tr @ [TracksUpdate p e t (build_release_config v t r n d), EditsCommit p e,
                   Raised x]"
  | (committed) v where "response ''versionCode'' = Some v"
      "tracks_update env p e t (build_release_config v t r n d) = None"
      "edits_commit env p e = None"
      "res = Inr True"
      "tr' = tr @ [TracksUpdate p e t (build_release_config v t r n d), EditsCommit p e]"
  using assms by (auto simp: release_and_commit_def Let_def split: option.splits)

lemma try_block_cases
  [consumes 1, case_names credentials build insert no_id getsize media chunk uploaded]:
  assumes "try_block env p a t r n d = Some (tr, res)"
  obtains
    (credentials) x where "from_service_account_file env = Some x"
      "res = Inl x" "tr = [LoadCredentials, Raised x]"
  | (build) x where "from_service_account_file env = None" "build_service env = Some x"
      "res = Inl x" "tr = [LoadCredentials, BuildService, Raised x]"
  | (insert) x where "from_service_account_file env = None" "build_service env = None"
      "edits_insert env p = Inl x"
      "res = Inl x" "tr = [LoadCredentials, BuildService, EditsInsert p, Raised x]"
  | (no_id) edit where "from_service_account_file env = None" "build_service env = None"
      "edits_insert env p = Inr edit" "edit ''id'' = None"
      "res = Inl (KeyError ''id'')"
      "tr = [LoadCredentials, BuildService, EditsInsert p, Raised (KeyError ''id'')]"
  | (getsize) e x where "edit_opened env p e" "getsize env a = Inl x"
      "res = Inl x"
      "tr = [LoadCredentials, BuildService, EditsInsert p, GetSize a, Raised x]"
  | (media) e sz x where "edit_opened env p e" "getsize env a = Inr sz"
      "MediaFileUpload env a = Some x"
      "res = Inl x"
      "tr = [LoadCredentials, BuildService, EditsInsert p, GetSize a, NewMedia a, Raised x]"
  | (chunk) e m x where "edit_opened env p e" "media_ready env a"
      "\<forall>j<m. \<exists>s. next_chunk env p e a j = Inr (s, None)"
      "next_chunk env p e a m = Inl x"
      "res = Inl x"
      "tr = [LoadCredentials, BuildService, EditsInsert p, GetSize a, NewMedia a]
              @ chunk_trace p e (next_chunk env p e a) 0 (Suc m) @ [Raised x]"
  | (uploaded) e m response where "edit_opened env p e" "media_ready env a"
      "upload_ends env p e a m response"
      "release_and_commit env p e t r n d response
         ([LoadCredentials, BuildService, EditsInsert p, GetSize a, NewMedia a]
            @ chunk_trace p e (next_chunk env p e a) 0 (Suc m)) = (tr, res)"
proof (cases "from_service_account_file env")
  case (Some x)
  with assms show ?thesis by (intro credentials [of x]) (simp_all add: try_block_def)
next
  case cred: None
  show ?thesis
  proof (cases "build_service env")
    case (Some x)
    with assms cred show ?thesis by (intro build [of x]) (simp_all add: try_block_def)
  next
    case bld: None
    show ?thesis
    proof (cases "edits_insert env p")
      case (Inl x)
      with assms cred bld show ?thesis
        by (intro insert [of x]) (simp_all add: try_block_def)
    next
      case (Inr edit)
      show ?thesis
      proof (cases "edit ''id''")
        case None
        with assms cred bld Inr show ?thesis
          by (intro no_id [of edit]) (simp_all add: try_block_def)
      next
        case (Some e)
        with cred bld Inr have opened: "edit_opened env p e"
          by (simp add: edit_opened_def)
        show ?thesis
        proof (cases "getsize env a")
          case (Inl x)
          with assms cred bld Inr Some show ?thesis
            by (intro getsize [of e x] opened) (simp_all add: try_block_def)
        next
          case size: (Inr sz)
          show ?thesis
          proof (cases "MediaFileUpload env a")
            case md: (Some x)
            with assms cred bld Inr Some size show ?thesis
              by (intro media [of e sz x] opened) (simp_all add: try_block_def)
          next
            case md: None
            with size have ready: "media_ready env a" by (simp add: media_ready_def)
            let ?tr0 = "[LoadCredentials, BuildService, EditsInsert p, GetSize a, NewMedia a]"
            let ?acks = "next_chunk env p e a"
            from assms cred bld Inr Some size md
            have run: "(case upload_loop p e ?acks 0 ?tr0 of
                     None \<Rightarrow> None
                   | Some (tr', Inl x) \<Rightarrow> Some (tr', Inl x)
                   | Some (tr', Inr response) \<Rightarrow>
                       Some (release_and_commit env p e t r n d response tr')) = Some (tr, res)"
              by (simp add: try_block_def)
            then obtain tr' res' where loop: "upload_loop p e ?acks 0 ?tr0 = Some (tr', res')"
              by (cases "upload_loop p e ?acks 0 ?tr0") auto
            from upload_loop_shape [OF loop] obtain m where
              skip: "\<forall>j<m. \<exists>s. ?acks j = Inr (s, None)" and
              fin: "(\<exists>x. ?acks m = Inl x \<and> res' = Inl x \<and>
                      tr' = ?tr0 @ chunk_trace p e ?acks 0 (Suc m) @ [Raised x]) \<or>
                    (\<exists>s response. ?acks m = Inr (s, Some response) \<and> res' = Inr response \<and>
                      tr' = ?tr0 @ chunk_trace p e ?acks 0 (Suc m))"
              by auto
            from fin show ?thesis
            proof
              assume "\<exists>x. ?acks m = Inl x \<and> res' = Inl x \<and>
                      tr' = ?tr0 @ chunk_trace p e ?acks 0 (Suc m) @ [Raised x]"
              then obtain x where x: "?acks m = Inl x" "res' = Inl x"
                 "tr' = ?tr0 @ chunk_trace p e ?acks 0 (Suc m) @ [Raised x]" by blast
              with run loop have "res = Inl x" "tr = tr'" by simp_all
              with x skip show ?thesis
                by (intro chunk [of e m x] opened ready) simp_all
            next
              assume "\<exists>s response. ?acks m = Inr (s, Some response) \<and> res' = Inr response \<and>
                      tr' = ?tr0 @ chunk_trace p e ?acks 0 (Suc m)"
              then obtain s response where x: "?acks m = Inr (s, Some response)"
                 "res' = Inr response" "tr' = ?tr0 @ chunk_trace p e ?acks 0 (Suc m)" by blast
              with run loop have rc: "release_and_commit env p e t r n d response
                   (?tr0 @ chunk_trace p e ?acks 0 (Suc m)) = (tr, res)" by simp
              from x skip have "upload_ends env p e a m response"
                by (auto simp: upload_ends_def)
              with rc show ?thesis
                by (intro uploaded [of e m response] opened ready)
            qed
          qed
        qed
      qed
    qed
  qed
qed

lemma chunk_calls_progress_of [simp]: "chunk_calls (progress_of ack) = 0"
  by (cases ack rule: progress_of.cases) simp_all

lemma chunk_calls_chunk_trace [simp]: "chunk_calls (chunk_trace p e acks i n) = n"
  by (induction n arbitrary: i) simp_all

lemma stops_at_error_progress_of [simp]:
  "stops_at_error env a k (progress_of ack @ tr) = stops_at_error env a k tr"
  by (cases ack rule: progress_of.cases) simp_all

lemma stops_at_error_setup:
  assumes "edit_opened env p e" and "media_ready env a"
  shows "stops_at_error env a 0
           ([LoadCredentials, BuildService, EditsInsert p, GetSize a, NewMedia a] @ tr)
         = stops_at_error env a 0 tr"
  using assms by (auto simp: edit_opened_def media_ready_def)

lemma stops_at_error_chunks:
  assumes "\<forall>j<m. \<exists>s. next_chunk env p e a j = Inr (s, None)"
  shows "stops_at_error env a 0 (chunk_trace p e (next_chunk env p e a) 0 (Suc m) @ tr)
         = (case step_error env a m (NextChunk p e) of
              Some x \<Rightarrow> ends_with x (progress_of (next_chunk env p e a m) @ tr)
            | None \<Rightarrow> stops_at_error env a (Suc m) tr)"
proof -
  let ?acks = "next_chunk env p e a"
  have skip: "\<forall>j<m. \<exists>s. ?acks (0 + j) = Inr (s, None)" using assms by simp
  have "chunk_trace p e ?acks 0 (Suc m)
          = chunk_trace p e ?acks 0 m @ chunk_trace p e ?acks m (Suc 0)"
    using chunk_trace_add [of p e ?acks 0 m "Suc 0"] by simp
  then have "stops_at_error env a 0 (chunk_trace p e ?acks 0 (Suc m) @ tr)
          = stops_at_error env a (0 + m) (chunk_trace p e ?acks m (Suc 0) @ tr)"
    using stops_at_error_chunk_trace [OF skip, of "chunk_trace p e ?acks m (Suc 0) @ tr"]
    by simp
  then show ?thesis
    by (simp split: option.splits)
qed

lemma try_block_stops:
  assumes "try_block env p a t r n d = Some (tr, res)"
  shows "stops_at_error env a 0 tr"
  using assms
proof (cases rule: try_block_cases)
  case (credentials x)
  then show ?thesis by simp
next
  case (build x)
  then show ?thesis by simp
next
  case (insert x)
  then show ?thesis by simp
next
  case (no_id edit)
  then show ?thesis by simp
next
  case (getsize e x)
  then show ?thesis by (auto simp: edit_opened_def)
next
  case (media e sz x)
  then show ?thesis by (auto simp: edit_opened_def)
next
  case (chunk e m x)
  have "stops_at_error env a 0 tr
          = stops_at_error env a 0
              (chunk_trace p e (next_chunk env p e a) 0 (Suc m) @ [Raised x])"
    unfolding chunk(6) by (rule stops_at_error_setup [OF chunk(1,2)])
  also have "\<dots>"
    using chunk(4) by (simp add: stops_at_error_chunks [OF chunk(3)] del: chunk_trace.simps)
  finally show ?thesis .
next
  case (uploaded e m response)
  let ?tr0 = "[LoadCredentials, BuildService, EditsInsert p, GetSize a, NewMedia a]"
  let ?ch = "chunk_trace p e (next_chunk env p e a) 0 (Suc m)"
  from uploaded(3) obtain s where
    skip: "\<forall>j<m. \<exists>s. next_chunk env p e a j = Inr (s, None)" and
    fin: "next_chunk env p e a m = Inr (s, Some response)"
    by (auto simp: upload_ends_def)
  have red: "stops_at_error env a 0 (?tr0 @ ?ch @ evs)
          = (case response ''versionCode'' of
               None \<Rightarrow> ends_with (KeyError ''versionCode'') (progress_of (Inr (s, Some response)) @ evs)
             | Some v \<Rightarrow> stops_at_error env a (Suc m) evs)" for evs
    using stops_at_error_setup [OF uploaded(1,2), of "?ch @ evs"]
      stops_at_error_chunks [OF skip, of evs] fin
    by (simp split: option.splits del: chunk_trace.simps)
  from uploaded(4) show ?thesis
  proof (cases rule: release_and_commit_cases)
    case no_version
    then show ?thesis using red [of "[Raised (KeyError ''versionCode'')]"]
      by (cases s) simp_all
  next
    case (track v x)
    then show ?thesis
      using red [of "[TracksUpdate p e t (build_release_config v t r n d), Raised x]"]
      by simp
  next
    case (commit v x)
    then show ?thesis
      using red [of "[TracksUpdate p e t (build_release_config v t r n d), EditsCommit p e,
                      Raised x]"]
      by simp
  next
    case (committed v)
    then show ?thesis
      using red [of "[TracksUpdate p e t (build_release_config v t r n d), EditsCommit p e]"]
      by simp
  qed
qed

lemma shown_progress_reports [simp]:
  "shown_progress (concat (map (\<lambda>s. [NextChunk p e, Progress s]) ps)) = ps"
  by (induction ps) simp_all

lemma protocol_steps_reports [simp]:
  "protocol_steps (concat (map (\<lambda>s. [NextChunk p e, Progress s]) ps))
     = replicate (length ps) BundleUpload"
  by (induction ps) simp_all

lemma try_block_submitted:
  assumes "try_block env p a t r n d = Some (tr, res)"
    and "c \<in> set (submitted tr)"
  shows "\<exists>e m response v.
           edit_opened env p e \<and> media_ready env a \<and> upload_ends env p e a m response \<and>
           response ''versionCode'' = Some v \<and>
           c = build_release_config v t r n d \<and> submitted tr = [c]"
  using assms(1)
proof (cases rule: try_block_cases)
  case (chunk e m x)
  then have "submitted tr = []" by (simp del: chunk_trace.simps)
  with assms(2) show ?thesis by simp
next
  case (uploaded e m response)
  let ?tr0 = "[LoadCredentials, BuildService, EditsInsert p, GetSize a, NewMedia a]
                @ chunk_trace p e (next_chunk env p e a) 0 (Suc m)"
  have tr0: "submitted ?tr0 = []" by (simp del: chunk_trace.simps)
  from uploaded(4) assms(2) tr0
  obtain v where v: "response ''versionCode'' = Some v"
    and sub: "submitted tr = [build_release_config v t r n d]"
    by (cases rule: release_and_commit_cases) (simp_all del: chunk_trace.simps)
  from sub assms(2) have "c = build_release_config v t r n d" by simp
  with uploaded(1-3) v sub show ?thesis by blast
qed (use assms(2) in simp_all)

lemma upload_to_google_play_try_block:
  assumes "upload_to_google_play env p a t r n d = Some (tr, out)"
    and "service_account_file_exists env"
  obtains res where "try_block env p a t r n d = Some (tr, res)"
    and "out = (case res of Inr b \<Rightarrow> Return b
                | Inl x \<Rightarrow> if is_Exception x then Return False else Raise x)"
  using assms
  by (auto simp: upload_to_google_play_def split: option.splits sum.splits if_splits)

lemma run_submitted:
  assumes "upload_to_google_play env p a t r n d = Some (tr, out)"
    and "c \<in> set (submitted tr)"
  shows "\<exists>e m response v.
           edit_opened env p e \<and> media_ready env a \<and> upload_ends env p e a m response \<and>
           response ''versionCode'' = Some v \<and>
           c = build_release_config v t r n d \<and> submitted tr = [c]"
proof (cases "service_account_file_exists env")
  case False
  with assms show ?thesis by (simp add: upload_to_google_play_def)
next
  case True
  from upload_to_google_play_try_block [OF assms(1) True]
  obtain res where "try_block env p a t r n d = Some (tr, res)" by blast
  from try_block_submitted [OF this assms(2)] show ?thesis .
qed

text \<open>
  A call that does not return is in the upload loop for ever: the edit is open, and
  neither the track update nor the commit is reached.
\<close>

lemma upload_to_google_play_None:
  assumes "upload_to_google_play env p a t r n d = None"
  shows "\<exists>e. edit_opened env p e \<and> media_ready env a \<and>
           (\<forall>j. \<exists>s. next_chunk env p e a j = Inr (s, None))"
proof -
  from assms have tb: "try_block env p a t r n d = None"
    by (auto simp: upload_to_google_play_def split: if_splits option.splits sum.splits)
  then obtain edit e where edit: "from_service_account_file env = None"
      "build_service env = None" "edits_insert env p = Inr edit" "edit ''id'' = Some e"
    and md: "\<exists>n. getsize env a = Inr n" "MediaFileUpload env a = None"
    and loop: "upload_loop p e (next_chunk env p e a) 0
                 [LoadCredentials, BuildService, EditsInsert p, GetSize a, NewMedia a] = None"
    by (auto simp: try_block_def Let_def split: option.splits sum.splits prod.splits)
  have "\<forall>j. \<exists>s. next_chunk env p e a j = Inr (s, None)"
    using upload_loop_None [OF loop] by simp
  with edit md show ?thesis by (auto simp: edit_opened_def media_ready_def)
qed

lemma try_block_uploaded:
  assumes "edit_opened env p e" and "media_ready env a"
    and "upload_ends env p e a m response"
  shows "try_block env p a t r n d =
           Some (release_and_commit env p e t r n d response
                  ([LoadCredentials, BuildService, EditsInsert p, GetSize a, NewMedia a]
                     @ chunk_trace p e (next_chunk env p e a) 0 (Suc m)))"
proof -
  let ?acks = "next_chunk env p e a"
  let ?tr0 = "[LoadCredentials, BuildService, EditsInsert p, GetSize a, NewMedia a]"
  from assms(3) obtain s where
    skip: "\<forall>j<m. \<exists>s. ?acks (0 + j) = Inr (s, None)" and
    fin: "?acks m = Inr (s, Some response)"
    by (auto simp: upload_ends_def)
  have "upload_loop p e ?acks 0 ?tr0 = upload_loop p e ?acks m (?tr0 @ chunk_trace p e ?acks 0 m)"
    using upload_loop_skip [OF skip, of p e ?tr0] by simp
  also have "\<dots> = Some ((?tr0 @ chunk_trace p e ?acks 0 m) @ chunk_trace p e ?acks m (Suc 0),
                         Inr response)"
    using fin by (rule upload_loop_final [of ?acks m s response])
  also have "(?tr0 @ chunk_trace p e ?acks 0 m) @ chunk_trace p e ?acks m (Suc 0)
               = ?tr0 @ chunk_trace p e ?acks 0 (Suc m)"
    using chunk_trace_add [of p e ?acks 0 m "Suc 0"] by simp
  finally have loop: "upload_loop p e ?acks 0 ?tr0
      = Some (?tr0 @ chunk_trace p e ?acks 0 (Suc m), Inr response)" .
  from assms(1,2) obtain edit sz where
    "from_service_account_file env = None" "build_service env = None"
    "edits_insert env p = Inr edit" "edit ''id'' = Some e"
    "getsize env a = Inr sz" "MediaFileUpload env a = None"
    by (auto simp: edit_opened_def media_ready_def)
  with loop show ?thesis
    by (simp add: try_block_def del: chunk_trace.simps)
qed

lemma run_submits:
  assumes "service_account_file_exists env"
    and "edit_opened env p e" and "media_ready env a"
    and "upload_ends env p e a m response"
    and "response ''versionCode'' = Some v"
  shows "\<exists>tr out. upload_to_google_play env p a t r n d = Some (tr, out) \<and>
           submitted tr = [build_release_config v t r n d] \<and>
           (out = Return True \<longleftrightarrow>
              tracks_update env p e t (build_release_config v t r n d) = None \<and>
              edits_commit env p e = None)"
proof -
  let ?tr0 = "[LoadCredentials, BuildService, EditsInsert p, GetSize a, NewMedia a]
                @ chunk_trace p e (next_chunk env p e a) 0 (Suc m)"
  obtain tr res where rc: "release_and_commit env p e t r n d response ?tr0 = (tr, res)"
    by (cases "release_and_commit env p e t r n d response ?tr0")
  with try_block_uploaded [OF assms(2-4), of t r n d]
  have tb: "try_block env p a t r n d = Some (tr, res)" by simp
  have up: "upload_to_google_play env p a t r n d
      = Some (tr, case res of Inr b \<Rightarrow> Return b
                  | Inl x \<Rightarrow> if is_Exception x then Return False else Raise x)"
    using assms(1) tb by (simp add: upload_to_google_play_def split: sum.splits)
  have tr0: "submitted ?tr0 = []" by (simp del: chunk_trace.simps)
  from rc assms(5) tr0 have
    "submitted tr = [build_release_config v t r n d] \<and>
     (res = Inr True \<longleftrightarrow>
        tracks_update env p e t (build_release_config v t r n d) = None \<and>
        edits_commit env p e = None) \<and> (\<forall>b. res = Inr b \<longrightarrow> b)"
    by (cases rule: release_and_commit_cases) (auto simp del: chunk_trace.simps)
  with up show ?thesis
    by (cases res) (auto split: if_splits)
qed

lemma try_block_cause:
  assumes "try_block env p a t r n d = Some (tr, res)"
    and "res \<noteq> Inr True"
  shows "\<exists>pre ev post x. tr = pre @ ev # post \<and>
           step_error env a (chunk_calls pre) ev = Some x"
  using assms(1)
proof (cases rule: try_block_cases)
  case (credentials x)
  then have "tr = [] @ LoadCredentials # [Raised x]"
    "step_error env a (chunk_calls []) LoadCredentials = Some x" by simp_all
  then show ?thesis by blast
next
  case (build x)
  then have "tr = [LoadCredentials] @ BuildService # [Raised x]"
    "step_error env a (chunk_calls [LoadCredentials]) BuildService = Some x" by simp_all
  then show ?thesis by blast
next
  case (insert x)
  then have "tr = [LoadCredentials, BuildService] @ EditsInsert p # [Raised x]"
    "step_error env a (chunk_calls [LoadCredentials, BuildService]) (EditsInsert p) = Some x"
    by simp_all
  then show ?thesis by blast
next
  case (no_id edit)
  then have "tr = [LoadCredentials, BuildService] @ EditsInsert p # [Raised (KeyError ''id'')]"
    "step_error env a (chunk_calls [LoadCredentials, BuildService]) (EditsInsert p)
       = Some (KeyError ''id'')"
    by simp_all
  then show ?thesis by blast
next
  case (getsize e x)
  then have "tr = [LoadCredentials, BuildService, EditsInsert p] @ GetSize a # [Raised x]"
    "step_error env a (chunk_calls [LoadCredentials, BuildService, EditsInsert p]) (GetSize a)
       = Some x"
    by simp_all
  then show ?thesis by blast
next
  case (media e sz x)
  then have "tr = [LoadCredentials, BuildService, EditsInsert p, GetSize a] @ NewMedia a
                    # [Raised x]"
    "step_error env a (chunk_calls [LoadCredentials, BuildService, EditsInsert p, GetSize a])
       (NewMedia a) = Some x"
    by simp_all
  then show ?thesis by blast
next
  case (chunk e m x)
  let ?pre = "[LoadCredentials, BuildService, EditsInsert p, GetSize a, NewMedia a]
                @ chunk_trace p e (next_chunk env p e a) 0 m"
  have "chunk_trace p e (next_chunk env p e a) 0 (Suc m)
          = chunk_trace p e (next_chunk env p e a) 0 m
              @ chunk_trace p e (next_chunk env p e a) m (Suc 0)"
    using chunk_trace_add [of p e "next_chunk env p e a" 0 m "Suc 0"] by simp
  with chunk have "tr = ?pre @ NextChunk p e # [Raised x]"
    "step_error env a (chunk_calls ?pre) (NextChunk p e) = Some x"
    by simp_all
  then show ?thesis by blast
next
  case (uploaded e m response)
  let ?acks = "next_chunk env p e a"
  let ?tr0 = "[LoadCredentials, BuildService, EditsInsert p, GetSize a, NewMedia a]"
  let ?pre = "?tr0 @ chunk_trace p e ?acks 0 m"
  from uploaded(3) obtain s where fin: "?acks m = Inr (s, Some response)"
    by (auto simp: upload_ends_def)
  have split: "?tr0 @ chunk_trace p e ?acks 0 (Suc m)
          = ?pre @ NextChunk p e # progress_of (?acks m)"
    using chunk_trace_add [of p e ?acks 0 m "Suc 0"] by simp
  from uploaded(4) assms(2) show ?thesis
  proof (cases rule: release_and_commit_cases)
    case no_version
    with fin split have
      "tr = ?pre @ NextChunk p e # (progress_of (?acks m) @ [Raised (KeyError ''versionCode'')])"
      "step_error env a (chunk_calls ?pre) (NextChunk p e) = Some (KeyError ''versionCode'')"
      by simp_all
    then show ?thesis by blast
  next
    case (track v x)
    let ?c = "build_release_config v t r n d"
    from track split have
      "tr = (?tr0 @ chunk_trace p e ?acks 0 (Suc m)) @ TracksUpdate p e t ?c # [Raised x]"
      "step_error env a (chunk_calls (?tr0 @ chunk_trace p e ?acks 0 (Suc m)))
         (TracksUpdate p e t ?c) = Some x"
      by (simp_all del: chunk_trace.simps)
    then show ?thesis by blast
  next
    case (commit v x)
    let ?c = "build_release_config v t r n d"
    from commit split have
      "tr = (?tr0 @ chunk_trace p e ?acks 0 (Suc m) @ [TracksUpdate p e t ?c])
              @ EditsCommit p e # [Raised x]"
      "step_error env a
         (chunk_calls (?tr0 @ chunk_trace p e ?acks 0 (Suc m) @ [TracksUpdate p e t ?c]))
         (EditsCommit p e) = Some x"
      by (simp_all del: chunk_trace.simps)
    then show ?thesis by blast
  qed simp
qed

section \<open>Runs of the scripted environments\<close>

lemma scripted_loop:
  "upload_loop p e scripted_acks 0 tr =
     Some (tr @ [NextChunk p e, Progress 40, NextChunk p e, Progress 80, NextChunk p e],
           Inr [''versionCode'' \<mapsto> 32])"
  by (simp add: upload_loop.simps scripted_acks_def)

lemma ok_run:
  "upload_to_google_play ok_env ''com.example.app'' ''app.aab'' ''production'' r ''notes'' d =
     Some ([LoadCredentials, BuildService, EditsInsert ''com.example.app'',
            GetSize ''app.aab'', NewMedia ''app.aab'',
            NextChunk ''com.example.app'' ''edit-1'', Progress 40,
            NextChunk ''com.example.app'' ''edit-1'', Progress 80,
            NextChunk ''com.example.app'' ''edit-1'',
            TracksUpdate ''com.example.app'' ''edit-1'' ''production''
              (build_release_config 32 ''production'' r ''notes'' d),
            EditsCommit ''com.example.app'' ''edit-1''], Return True)"
  by (simp add: upload_to_google_play_def try_block_def ok_env_def scripted_loop
        release_and_commit_def)

lemma forbidden_run:
  "upload_to_google_play forbidden_env ''com.example.app'' ''app.aab'' ''production'' r ''notes'' d =
     Some ([LoadCredentials, BuildService, EditsInsert ''com.example.app'',
            GetSize ''app.aab'', NewMedia ''app.aab'',
            NextChunk ''com.example.app'' ''edit-1'', Progress 40,
            NextChunk ''com.example.app'' ''edit-1'', Progress 80,
            NextChunk ''com.example.app'' ''edit-1'',
            TracksUpdate ''com.example.app'' ''edit-1'' ''production''
              (build_release_config 32 ''production'' r ''notes'' d),
            Raised (Exception ''403 Forbidden'')], Return False)"
  by (simp add: upload_to_google_play_def try_block_def ok_env_def forbidden_env_def scripted_loop
        release_and_commit_def)

lemma ok_env_ready:
  "service_account_file_exists ok_env"
  "edit_opened ok_env ''com.example.app'' ''edit-1''"
  "media_ready ok_env ''app.aab''"
  "upload_ends ok_env ''com.example.app'' ''edit-1'' ''app.aab'' 2 [''versionCode'' \<mapsto> 32]"
  by (simp_all add: ok_env_def edit_opened_def media_ready_def upload_ends_def scripted_acks_def
        less_Suc_eq numeral_2_eq_2)

section \<open>Order of the remote operations\<close>

lemma is_Raised_iff: "is_Raised ev \<longleftrightarrow> (\<exists>x. ev = Raised x)"
  by (cases ev) simp_all

lemma nothing_after_failure_iff:
  "nothing_after_failure tr \<longleftrightarrow> (\<forall>pre x post. tr = pre @ Raised x # post \<longrightarrow> post = [])"
proof (induction tr)
  case Nil
  then show ?case by simp
next
  case (Cons ev tr)
  show ?case
  proof (cases "is_Raised ev")
    case True
    then obtain y where y: "ev = Raised y" by (auto simp: is_Raised_iff)
    have "(\<forall>pre x post. Raised y # tr = pre @ Raised x # post \<longrightarrow> post = []) \<longleftrightarrow> tr = []"
    proof
      assume "\<forall>pre x post. Raised y # tr = pre @ Raised x # post \<longrightarrow> post = []"
      then have "Raised y # tr = [] @ Raised y # tr \<longrightarrow> tr = []" by blast
      then show "tr = []" by simp
    next
      assume "tr = []"
      then show "\<forall>pre x post. Raised y # tr = pre @ Raised x # post \<longrightarrow> post = []"
        by (auto simp: Cons_eq_append_conv)
    qed
    with y show ?thesis by simp
  next
    case False
    then have "\<And>x. ev \<noteq> Raised x" by (auto simp: is_Raised_iff)
    with False Cons show ?thesis by (auto simp: Cons_eq_append_conv)
  qed
qed

lemma in_order_simps:
  "in_order []"
  "in_order [OpenEdit]"
  "in_order (OpenEdit # replicate (Suc m) BundleUpload)"
  "in_order (OpenEdit # replicate (Suc m) BundleUpload @ [TrackUpdate])"
  "in_order (OpenEdit # replicate (Suc m) BundleUpload @ [TrackUpdate, CommitEdit])"
proof -
  show "in_order []" "in_order [OpenEdit]"
    unfolding in_order_def by (rule exI [of _ 1], simp)+
  have "prefix (replicate (Suc m) BundleUpload @ [])
          (replicate (Suc m) BundleUpload @ [TrackUpdate, CommitEdit])"
       "prefix (replicate (Suc m) BundleUpload @ [TrackUpdate])
          (replicate (Suc m) BundleUpload @ [TrackUpdate, CommitEdit])"
    unfolding same_prefix_prefix by simp_all
  then show "in_order (OpenEdit # replicate (Suc m) BundleUpload)"
    "in_order (OpenEdit # replicate (Suc m) BundleUpload @ [TrackUpdate])"
    "in_order (OpenEdit # replicate (Suc m) BundleUpload @ [TrackUpdate, CommitEdit])"
    unfolding in_order_def by (intro exI [of _ "Suc m"]; simp)+
qed

lemma try_block_run:
  assumes "try_block env p a t r n d = Some (tr, res)"
  shows "in_order (protocol_steps tr) \<and> nothing_after_failure tr \<and>
         (failed tr \<longleftrightarrow> (\<exists>x. res = Inl x)) \<and>
         (\<not> failed tr \<longrightarrow> res = Inr True \<and> CommitEdit \<in> set (protocol_steps tr))"
  using assms
proof (cases rule: try_block_cases)
  case (chunk e m x)
  then show ?thesis
    using in_order_simps(3) [of m]
    by (simp add: nothing_after_failure_append del: chunk_trace.simps replicate.simps)
next
  case (uploaded e m response)
  let ?tr0 = "[LoadCredentials, BuildService, EditsInsert p, GetSize a, NewMedia a]
                @ chunk_trace p e (next_chunk env p e a) 0 (Suc m)"
  have tr0: "\<not> failed ?tr0" "protocol_steps ?tr0 = OpenEdit # replicate (Suc m) BundleUpload"
    by (simp_all del: chunk_trace.simps replicate.simps)
  from uploaded(4)
  obtain evs where tr: "tr = ?tr0 @ evs" and
    evs: "(\<exists>x. res = Inl x \<and> evs = [Raised x]) \<or>
          (\<exists>x c. res = Inl x \<and> evs = [TracksUpdate p e t c, Raised x]) \<or>
          (\<exists>x c. res = Inl x \<and> evs = [TracksUpdate p e t c, EditsCommit p e, Raised x]) \<or>
          (\<exists>c. res = Inr True \<and> evs = [TracksUpdate p e t c, EditsCommit p e])"
    by (cases rule: release_and_commit_cases) blast+
  have steps: "protocol_steps tr = OpenEdit # replicate (Suc m) BundleUpload @ protocol_steps evs"
    and naf: "nothing_after_failure tr = nothing_after_failure evs"
    and fl: "failed tr = failed evs"
    unfolding tr using tr0
    by (simp_all add: nothing_after_failure_append del: chunk_trace.simps replicate.simps)
  from evs show ?thesis
    unfolding steps naf fl
    using in_order_simps(3-5) [of m]
    by (elim disjE exE conjE) (simp_all del: replicate.simps)
qed (simp_all add: in_order_simps)

text \<open>
  Claim C1. Whenever \<open>upload_to_google_play\<close> returns, the remote operations it has
  attempted are, in this order, open-edit, the bundle-upload calls, track-update and commit,
  or an initial part of that sequence. A step that ends with an error, as the environment
  has it (\<open>step_error\<close>: the call raises, or the key read from its answer is missing),
  ends the run: after it the trace has only the exception (after the progress line of
  that chunk, if it printed one), so no later call is made, the commit least of all, and
  the function does not return \<open>True\<close>. A raised exception is the last event of the
  trace. The function returns \<open>True\<close> exactly when nothing was raised and the commit
  was made. (A call that does not return stays in the upload loop, see
  \<open>upload_to_google_play_None\<close>, and reaches neither the track update nor the commit.)
\<close>

theorem upload_steps_in_order:
  assumes "upload_to_google_play env p a t r n d = Some (tr, out)"
  shows "(\<exists>k>0. prefix (protocol_steps tr)
                  (OpenEdit # replicate k BundleUpload @ [TrackUpdate, CommitEdit])) \<and>
         (\<forall>pre ev post x.
            tr = pre @ ev # post \<and> step_error env a (chunk_calls pre) ev = Some x \<longrightarrow>
            (post = [Raised x] \<or> (\<exists>s. post = [Progress s, Raised x])) \<and>
            out \<noteq> Return True) \<and>
         (\<forall>pre x post. tr = pre @ Raised x # post \<longrightarrow> post = []) \<and>
         (failed tr \<longrightarrow> out \<noteq> Return True) \<and>
         (out = Return True \<longleftrightarrow> \<not> failed tr \<and> CommitEdit \<in> set (protocol_steps tr))"
proof (cases "service_account_file_exists env")
  case False
  with assms have "tr = []" "out = Return False"
    by (simp_all add: upload_to_google_play_def)
  then show ?thesis
    using in_order_simps(1) by (simp add: in_order_def)
next
  case True
  from upload_to_google_play_try_block [OF assms True]
  obtain res where tb: "try_block env p a t r n d = Some (tr, res)"
    and out: "out = (case res of Inr b \<Rightarrow> Return b
                     | Inl x \<Rightarrow> if is_Exception x then Return False else Raise x)"
    by blast
  from try_block_run [OF tb] have
    ord: "in_order (protocol_steps tr)" and naf: "nothing_after_failure tr" and
    fl: "failed tr \<longleftrightarrow> (\<exists>x. res = Inl x)" and
    ok: "\<not> failed tr \<longrightarrow> res = Inr True \<and> CommitEdit \<in> set (protocol_steps tr)"
    by blast+
  have f: "failed tr \<longrightarrow> out \<noteq> Return True"
    using fl out by (auto split: if_splits)
  have t: "out = Return True \<longleftrightarrow> \<not> failed tr \<and> CommitEdit \<in> set (protocol_steps tr)"
    using fl ok out by (cases res) (auto split: if_splits)
  have l: "\<forall>pre x post. tr = pre @ Raised x # post \<longrightarrow> post = []"
    using naf by (simp only: nothing_after_failure_iff)
  have o: "\<exists>k>0. prefix (protocol_steps tr)
                  (OpenEdit # replicate k BundleUpload @ [TrackUpdate, CommitEdit])"
    using ord by (simp only: in_order_def)
  have s: "(post = [Raised x] \<or> (\<exists>s. post = [Progress s, Raised x])) \<and> out \<noteq> Return True"
    if "tr = pre @ ev # post" and "step_error env a (chunk_calls pre) ev = Some x"
    for pre ev post x
  proof -
    from stops_at_error_split [OF try_block_stops [OF tb] that(1)] that(2)
    have e: "ends_with x post" by simp
    then have "failed post" by (auto simp: ends_with_iff)
    with that(1) have "failed tr" by simp
    with f e show ?thesis by (simp add: ends_with_iff)
  qed
  from o s l f t show ?thesis by blast
qed

theorem upload_steps_in_order_witness:
  "upload_to_google_play forbidden_env ''com.example.app'' ''app.aab'' ''production''
       (Finite 10) ''notes'' False
     = Some ([LoadCredentials, BuildService, EditsInsert ''com.example.app'',
            GetSize ''app.aab'', NewMedia ''app.aab'',
            NextChunk ''com.example.app'' ''edit-1'', Progress 40,
            NextChunk ''com.example.app'' ''edit-1'', Progress 80,
            NextChunk ''com.example.app'' ''edit-1'']
           @ TracksUpdate ''com.example.app'' ''edit-1'' ''production''
              (build_release_config 32 ''production'' (Finite 10) ''notes'' False)
           # [Raised (Exception ''403 Forbidden'')], Return False) \<and>
   step_error forbidden_env ''app.aab''
       (chunk_calls [LoadCredentials, BuildService, EditsInsert ''com.example.app'',
            GetSize ''app.aab'', NewMedia ''app.aab'',
            NextChunk ''com.example.app'' ''edit-1'', Progress (40::nat),
            NextChunk ''com.example.app'' ''edit-1'', Progress 80,
            NextChunk ''com.example.app'' ''edit-1''])
       (TracksUpdate ''com.example.app'' ''edit-1'' ''production''
              (build_release_config 32 ''production'' (Finite 10) ''notes'' False))
     = Some (Exception ''403 Forbidden'') \<and>
   Return False \<noteq> Return True \<and>
   (\<exists>k>0. prefix [OpenEdit, BundleUpload, BundleUpload, BundleUpload, TrackUpdate]
                  (OpenEdit # replicate k BundleUpload @ [TrackUpdate, CommitEdit]))"
proof -
  let ?pre = "[LoadCredentials, BuildService, EditsInsert ''com.example.app'',
            GetSize ''app.aab'', NewMedia ''app.aab'',
            NextChunk ''com.example.app'' ''edit-1'', Progress (40::nat),
            NextChunk ''com.example.app'' ''edit-1'', Progress 80,
            NextChunk ''com.example.app'' ''edit-1'']"
  let ?ev = "TracksUpdate ''com.example.app'' ''edit-1'' ''production''
              (build_release_config 32 ''production'' (Finite 10) ''notes'' False)"
  let ?x = "Exception ''403 Forbidden''"
  have run: "upload_to_google_play forbidden_env ''com.example.app'' ''app.aab'' ''production''
       (Finite 10) ''notes'' False = Some (?pre @ ?ev # [Raised ?x], Return False)"
    using forbidden_run [of "Finite 10" False] by simp
  have err: "step_error forbidden_env ''app.aab'' (chunk_calls ?pre) ?ev = Some ?x"
    by (simp add: forbidden_env_def)
  note inst = upload_steps_in_order [OF run]
  from inst have "\<exists>k>0. prefix (protocol_steps (?pre @ ?ev # [Raised ?x]))
                  (OpenEdit # replicate k BundleUpload @ [TrackUpdate, CommitEdit])"
    by (rule conjunct1)
  then have ord: "\<exists>k>0. prefix [OpenEdit, BundleUpload, BundleUpload, BundleUpload, TrackUpdate]
                  (OpenEdit # replicate k BundleUpload @ [TrackUpdate, CommitEdit])"
    by simp
  from inst have "\<forall>pre ev post x.
            ?pre @ ?ev # [Raised ?x] = pre @ ev # post \<and>
            step_error forbidden_env ''app.aab'' (chunk_calls pre) ev = Some x \<longrightarrow>
            (post = [Raised x] \<or> (\<exists>s. post = [Progress s, Raised x])) \<and>
            Return False \<noteq> Return True"
    by blast
  with err have "Return False \<noteq> Return True" by blast
  with run err ord show ?thesis by blast
qed

section \<open>The release descriptor\<close>

text \<open>
  Claim C2. On the \<open>production\<close> track and without \<open>draft\<close>, for every rollout
  percentage \<open>r\<close> with \<open>0 \<le> r \<le> 100\<close>: the descriptor has status \<open>inProgress\<close> and
  the rollout fraction \<open>r / 100.0\<close> if and only if \<open>r < 100\<close>; otherwise its status is
  \<open>completed\<close> and it has no rollout fraction.
\<close>

theorem production_rollout_status:
  assumes "float_ge r 0" and "float_le r 100"
  shows "((status (build_release_config v ''production'' r n False) = ''inProgress'' \<and>
           userFraction (build_release_config v ''production'' r n False) = Some (div_100 r))
            \<longleftrightarrow> float_lt r 100) \<and>
         (\<not> float_lt r 100 \<longrightarrow>
           status (build_release_config v ''production'' r n False) = ''completed'' \<and>
           userFraction (build_release_config v ''production'' r n False) = None)"
  by (simp add: build_release_config_def Let_def)

theorem production_rollout_status_witness:
  "float_ge (Finite 10) 0 \<and> float_le (Finite 10) 100 \<and> float_lt (Finite 10) 100 \<and>
   status (build_release_config 32 ''production'' (Finite 10) ''notes'' False) = ''inProgress'' \<and>
   userFraction (build_release_config 32 ''production'' (Finite 10) ''notes'' False)
     = Some (div_100 (Finite 10)) \<and>
   div_100 (Finite 10) = Finite (3602879701896397 / 36028797018963968) \<and>
   float_ge (Finite 100) 0 \<and> float_le (Finite 100) 100 \<and> \<not> float_lt (Finite 100) 100 \<and>
   status (build_release_config 32 ''production'' (Finite 100) ''notes'' False) = ''completed'' \<and>
   userFraction (build_release_config 32 ''production'' (Finite 100) ''notes'' False) = None"
proof -
  have a: "float_ge (Finite 10) 0" "float_le (Finite 10) 100"
    and b: "float_ge (Finite 100) 0" "float_le (Finite 100) 100" by simp_all
  have v: "div_100 (Finite 10) = Finite (3602879701896397 / 36028797018963968)"
    by code_simp
  from production_rollout_status [OF a, of 32 "''notes''"]
       production_rollout_status [OF b, of 32 "''notes''"] a b v
  show ?thesis by simp
qed

text \<open>
  Claim C5. With \<open>draft\<close> set, for every track and every rollout percentage, the
  descriptor has status \<open>draft\<close> and no rollout fraction, and the rollout percentage has
  no influence on it.
\<close>

theorem draft_release_status:
  "status (build_release_config v t r n True) = ''draft'' \<and>
   userFraction (build_release_config v t r n True) = None \<and>
   build_release_config v t r n True = build_release_config v t r' n True"
  by (simp add: build_release_config_def)

text \<open>
  Claim C6. On every track other than \<open>production\<close> and without \<open>draft\<close>, the
  descriptor has status \<open>completed\<close> and no rollout fraction, whatever the rollout
  percentage.
\<close>

theorem other_track_status:
  assumes "t \<noteq> ''production''"
  shows "status (build_release_config v t r n False) = ''completed'' \<and>
         userFraction (build_release_config v t r n False) = None \<and>
         build_release_config v t r n False = build_release_config v t r' n False"
  using assms by (simp add: build_release_config_def)

theorem other_track_status_witness:
  "''beta'' \<noteq> ''production'' \<and>
   status (build_release_config 32 ''beta'' (Finite 10) ''notes'' False) = ''completed'' \<and>
   userFraction (build_release_config 32 ''beta'' (Finite 10) ''notes'' False) = None \<and>
   build_release_config 32 ''beta'' (Finite 10) ''notes'' False
     = build_release_config 32 ''beta'' (Finite 100) ''notes'' False"
proof -
  have h: "''beta'' \<noteq> ''production''" by simp
  show ?thesis by (rule conjI [OF h other_track_status [OF h]])
qed

section \<open>The resumable upload\<close>

text \<open>
  Claim C4. When the first \<open>N - 1\<close> calls of \<open>next_chunk\<close> return a progress status
  \<open>ps ! k\<close> and no response, and call \<open>N\<close> returns the final response \<open>r\<close> (with no
  status object, as the client library does on completion), the loop returns, after
  exactly \<open>N\<close> calls, with exactly \<open>r\<close>, and has shown the progress of \<open>ps\<close>, in
  order: \<open>N - 1\<close> reports. Here \<open>N = Suc (length ps)\<close>, and the calls are counted from 0.
\<close>

theorem upload_loop_returns_final_result:
  assumes "\<forall>k<length ps. acks k = Inr (Some (ps ! k), None)"
    and "acks (length ps) = Inr (None, Some r)"
  shows "\<exists>evs. upload_loop p e acks 0 tr = Some (tr @ evs, Inr r) \<and>
           evs = concat (map (\<lambda>s. [NextChunk p e, Progress s]) ps) @ [NextChunk p e] \<and>
           protocol_steps evs = replicate (Suc (length ps)) BundleUpload \<and>
           shown_progress evs = ps"
proof -
  let ?reports = "concat (map (\<lambda>s. [NextChunk p e, Progress s]) ps)"
  have skip: "\<forall>j<length ps. \<exists>s. acks (0 + j) = Inr (s, None)"
    using assms(1) by simp
  have reports: "chunk_trace p e acks 0 (length ps) = ?reports"
    using assms(1) by (intro chunk_trace_progress) simp
  have "upload_loop p e acks 0 tr = upload_loop p e acks (length ps) (tr @ ?reports)"
    using upload_loop_skip [OF skip, of p e tr] reports by simp
  also have "\<dots> = Some ((tr @ ?reports) @ chunk_trace p e acks (length ps) (Suc 0), Inr r)"
    using assms(2) by (rule upload_loop_final [of acks "length ps" None r])
  also have "chunk_trace p e acks (length ps) (Suc 0) = [NextChunk p e]"
    using assms(2) by simp
  finally have "upload_loop p e acks 0 tr = Some (tr @ ?reports @ [NextChunk p e], Inr r)"
    by simp
  moreover have "protocol_steps (?reports @ [NextChunk p e]) = replicate (Suc (length ps)) BundleUpload"
    by (simp add: replicate_append_same)
  moreover have "shown_progress (?reports @ [NextChunk p e]) = ps"
    by simp
  ultimately show ?thesis by blast
qed

theorem upload_loop_returns_final_result_witness:
  "scripted_acks 0 = Inr (Some ([40, 80] ! 0), None) \<and>
   scripted_acks 1 = Inr (Some ([40, 80] ! 1), None) \<and>
   scripted_acks (length [40, 80 :: nat]) = Inr (None, Some [''versionCode'' \<mapsto> 32]) \<and>
   (\<exists>evs. upload_loop ''com.example.app'' ''edit-1'' scripted_acks 0 []
              = Some ([] @ evs, Inr [''versionCode'' \<mapsto> 32]) \<and>
           evs = concat (map (\<lambda>s. [NextChunk ''com.example.app'' ''edit-1'', Progress s]) [40, 80])
                   @ [NextChunk ''com.example.app'' ''edit-1''] \<and>
           protocol_steps evs = replicate (Suc (length [40, 80 :: nat])) BundleUpload \<and>
           shown_progress evs = [40, 80])"
proof -
  have h1: "\<forall>k<length [40, 80 :: nat]. scripted_acks k = Inr (Some ([40, 80] ! k), None)"
    by (simp add: scripted_acks_def less_Suc_eq)
  have h2: "scripted_acks (length [40, 80 :: nat]) = Inr (None, Some [''versionCode'' \<mapsto> 32])"
    by (simp add: scripted_acks_def)
  have h0: "scripted_acks 0 = Inr (Some ([40, 80] ! 0), None)"
    "scripted_acks 1 = Inr (Some ([40, 80] ! 1), None)"
    by (simp_all add: scripted_acks_def)
  show ?thesis
    by (intro conjI h0 h2 upload_loop_returns_final_result [OF h1 h2])
qed

section \<open>The whole function\<close>

text \<open>
  Claim C9. Without the service-account file the function returns \<open>False\<close> with an
  empty trace: no credentials are loaded, no client is built, no remote call is made.
\<close>

theorem missing_credentials_returns_False:
  assumes "\<not> service_account_file_exists env"
  shows "upload_to_google_play env p a t r n d = Some ([], Return False)"
  using assms by (simp add: upload_to_google_play_def)

theorem missing_credentials_returns_False_witness:
  "\<not> service_account_file_exists no_credentials_env \<and>
   upload_to_google_play no_credentials_env ''com.example.app'' ''app.aab'' ''production'' (Finite 100)
     ''notes'' False = Some ([], Return False)"
proof -
  have h: "\<not> service_account_file_exists no_credentials_env"
    by (simp add: no_credentials_env_def ok_env_def)
  show ?thesis
    using h missing_credentials_returns_False [OF h] by simp
qed

text \<open>
  Claim C8. Every release descriptor sent with the track update (there is at most one) has
  exactly one version code, the \<open>versionCode\<close> of the response that ended the upload,
  and its release notes are the one entry for the language \<open>en-US\<close>, whatever the
  track, the draft flag and the rollout percentage.
\<close>

theorem submitted_version_code_and_locale:
  assumes "upload_to_google_play env p a t r n d = Some (tr, out)"
    and "c \<in> set (submitted tr)"
  shows "submitted tr = [c] \<and>
         releaseNotes c = [\<lparr>language = ''en-US'', note_text = n\<rparr>] \<and>
         (\<exists>edit e m s response v.
            edits_insert env p = Inr edit \<and> edit ''id'' = Some e \<and>
            (\<forall>j<m. \<exists>s'. next_chunk env p e a j = Inr (s', None)) \<and>
            next_chunk env p e a m = Inr (s, Some response) \<and>
            response ''versionCode'' = Some v \<and> versionCodes c = [v])"
proof -
  from run_submitted [OF assms] obtain e m response v where
    env: "edit_opened env p e" "upload_ends env p e a m response"
      "response ''versionCode'' = Some v"
    and c: "c = build_release_config v t r n d" and one: "submitted tr = [c]"
    by blast
  from env(1,2) obtain edit s where
    "edits_insert env p = Inr edit" "edit ''id'' = Some e"
    "\<forall>j<m. \<exists>s'. next_chunk env p e a j = Inr (s', None)"
    "next_chunk env p e a m = Inr (s, Some response)"
    by (auto simp: edit_opened_def upload_ends_def)
  moreover
  from c have "releaseNotes c = [\<lparr>language = ''en-US'', note_text = n\<rparr>]" "versionCodes c = [v]"
    by (simp_all add: build_release_config_def Let_def)
  ultimately show ?thesis using env(3) one by blast
qed

theorem submitted_version_code_and_locale_witness:
  "upload_to_google_play ok_env ''com.example.app'' ''app.aab'' ''production'' (Finite 100)
       ''notes'' False
     = Some ([LoadCredentials, BuildService, EditsInsert ''com.example.app'',
            GetSize ''app.aab'', NewMedia ''app.aab'',
            NextChunk ''com.example.app'' ''edit-1'', Progress 40,
            NextChunk ''com.example.app'' ''edit-1'', Progress 80,
            NextChunk ''com.example.app'' ''edit-1'',
            TracksUpdate ''com.example.app'' ''edit-1'' ''production''
              (build_release_config 32 ''production'' (Finite 100) ''notes'' False),
            EditsCommit ''com.example.app'' ''edit-1''], Return True) \<and>
   releaseNotes (build_release_config 32 ''production'' (Finite 100) ''notes'' False)
     = [\<lparr>language = ''en-US'', note_text = ''notes''\<rparr>] \<and>
   (\<exists>edit e m s response v.
       edits_insert ok_env ''com.example.app'' = Inr edit \<and> edit ''id'' = Some e \<and>
       (\<forall>j<m. \<exists>s'. next_chunk ok_env ''com.example.app'' e ''app.aab'' j = Inr (s', None)) \<and>
       next_chunk ok_env ''com.example.app'' e ''app.aab'' m = Inr (s, Some response) \<and>
       response ''versionCode'' = Some v \<and>
       versionCodes (build_release_config 32 ''production'' (Finite 100) ''notes'' False) = [v])"
proof -
  note run = ok_run [of "Finite 100" False]
  have mem: "build_release_config 32 ''production'' (Finite 100) ''notes'' False
      \<in> set (submitted [LoadCredentials, BuildService, EditsInsert ''com.example.app'',
            GetSize ''app.aab'', NewMedia ''app.aab'',
            NextChunk ''com.example.app'' ''edit-1'', Progress (40::nat),
            NextChunk ''com.example.app'' ''edit-1'', Progress 80,
            NextChunk ''com.example.app'' ''edit-1'',
            TracksUpdate ''com.example.app'' ''edit-1'' ''production''
              (build_release_config 32 ''production'' (Finite 100) ''notes'' False),
            EditsCommit ''com.example.app'' ''edit-1''])"
    by simp
  from submitted_version_code_and_locale [OF run mem] run show ?thesis
    by blast
qed




text \<open>
  A rollout percentage of \<open>150.0\<close> raises nothing: the edit is opened, the bundle
  uploaded, the release sent as \<open>completed\<close>, the edit committed, and the function
  returns \<open>True\<close>.
\<close>

theorem rollout_150_counterexample:
  "upload_to_google_play ok_env ''com.example.app'' ''app.aab'' ''production'' (Finite 150)
       ''notes'' False
     = Some ([LoadCredentials, BuildService, EditsInsert ''com.example.app'',
            GetSize ''app.aab'', NewMedia ''app.aab'',
            NextChunk ''com.example.app'' ''edit-1'', Progress 40,
            NextChunk ''com.example.app'' ''edit-1'', Progress 80,
            NextChunk ''com.example.app'' ''edit-1'',
            TracksUpdate ''com.example.app'' ''edit-1'' ''production''
              \<lparr>versionCodes = [32],
                 releaseNotes = [\<lparr>language = ''en-US'', note_text = ''notes''\<rparr>],
                 status = ''completed'', userFraction = None\<rparr>,
            EditsCommit ''com.example.app'' ''edit-1''], Return True)"
  by (simp add: ok_run build_release_config_def)

text \<open>
  Claim C3, as the code has it. The rollout percentage is not checked against a range, and
  no value of it, inside or outside 0 to 100, makes the function fail before a remote
  call. For every rollout percentage, when the credentials file exists:
  \<^item> if the credentials load and the client is built, every run that returns has made the
    call that opens the edit;
  \<^item> a run that returns anything but \<open>True\<close> has a step that ended with an error of the
    environment (a call that raised, or a key missing in an answer): there is no error of
    the function's own;
  \<^item> if the edit is opened with an \<open>id\<close>, the bundle file is ready, the upload ends with
    a response that has a \<open>versionCode\<close>, and neither the track update (of the
    descriptor built from this rollout percentage) nor the commit raises, the function
    makes all its calls, the commit last, and returns \<open>True\<close>.
\<close>

theorem rollout_not_validated:
  assumes "service_account_file_exists env"
  shows "(from_service_account_file env = None \<and> build_service env = None \<longrightarrow>
            (\<forall>tr out. upload_to_google_play env p a t r n d = Some (tr, out) \<longrightarrow>
               EditsInsert p \<in> set tr)) \<and>
         (\<forall>tr out. upload_to_google_play env p a t r n d = Some (tr, out) \<and> out \<noteq> Return True \<longrightarrow>
            (\<exists>pre ev post x. tr = pre @ ev # post \<and>
               step_error env a (chunk_calls pre) ev = Some x)) \<and>
         (edit_opened env p e \<and> media_ready env a \<and> upload_ends env p e a m response \<and>
          response ''versionCode'' = Some v \<and>
          tracks_update env p e t (build_release_config v t r n d) = None \<and>
          edits_commit env p e = None \<longrightarrow>
            upload_to_google_play env p a t r n d =
              Some ([LoadCredentials, BuildService, EditsInsert p, GetSize a, NewMedia a]
                      @ chunk_trace p e (next_chunk env p e a) 0 (Suc m)
                      @ [TracksUpdate p e t (build_release_config v t r n d), EditsCommit p e],
                    Return True))"
proof (intro conjI impI allI)
  fix tr out
  assume env: "from_service_account_file env = None \<and> build_service env = None"
    and run: "upload_to_google_play env p a t r n d = Some (tr, out)"
  from upload_to_google_play_try_block [OF run assms]
  obtain res where "try_block env p a t r n d = Some (tr, res)" by blast
  then show "EditsInsert p \<in> set tr"
  proof (cases rule: try_block_cases)
    case (uploaded e m response)
    from uploaded(4) show ?thesis
      by (cases rule: release_and_commit_cases) simp_all
  qed (use env in simp_all)
next
  fix tr out
  assume run: "upload_to_google_play env p a t r n d = Some (tr, out) \<and> out \<noteq> Return True"
  from upload_to_google_play_try_block [OF conjunct1 [OF run] assms]
  obtain res where tb: "try_block env p a t r n d = Some (tr, res)"
    and out: "out = (case res of Inr b \<Rightarrow> Return b
                     | Inl x \<Rightarrow> if is_Exception x then Return False else Raise x)"
    by blast
  from out run have "res \<noteq> Inr True" by auto
  from try_block_cause [OF tb this]
  show "\<exists>pre ev post x. tr = pre @ ev # post \<and> step_error env a (chunk_calls pre) ev = Some x" .
next
  assume h: "edit_opened env p e \<and> media_ready env a \<and> upload_ends env p e a m response \<and>
          response ''versionCode'' = Some v \<and>
          tracks_update env p e t (build_release_config v t r n d) = None \<and>
          edits_commit env p e = None"
  then have "try_block env p a t r n d
      = Some ([LoadCredentials, BuildService, EditsInsert p, GetSize a, NewMedia a]
                @ chunk_trace p e (next_chunk env p e a) 0 (Suc m)
                @ [TracksUpdate p e t (build_release_config v t r n d), EditsCommit p e],
              Inr True)"
    using try_block_uploaded [of env p e a m response t r n d]
    by (simp add: release_and_commit_def del: chunk_trace.simps)
  with assms show "upload_to_google_play env p a t r n d =
              Some ([LoadCredentials, BuildService, EditsInsert p, GetSize a, NewMedia a]
                      @ chunk_trace p e (next_chunk env p e a) 0 (Suc m)
                      @ [TracksUpdate p e t (build_release_config v t r n d), EditsCommit p e],
                    Return True)"
    by (simp add: upload_to_google_play_def del: chunk_trace.simps)
qed

theorem rollout_not_validated_witness:
  "service_account_file_exists ok_env \<and>
   float_gt (Finite 150) 100 \<and>
   upload_to_google_play ok_env ''com.example.app'' ''app.aab'' ''production'' (Finite 150)
       ''notes'' False =
     Some ([LoadCredentials, BuildService, EditsInsert ''com.example.app'',
            GetSize ''app.aab'', NewMedia ''app.aab'']
             @ chunk_trace ''com.example.app'' ''edit-1''
                 (next_chunk ok_env ''com.example.app'' ''edit-1'' ''app.aab'') 0 (Suc 2)
             @ [TracksUpdate ''com.example.app'' ''edit-1'' ''production''
                  (build_release_config 32 ''production'' (Finite 150) ''notes'' False),
                EditsCommit ''com.example.app'' ''edit-1''],
           Return True) \<and>
   EditsInsert ''com.example.app''
     \<in> set ([LoadCredentials, BuildService, EditsInsert ''com.example.app'',
            GetSize ''app.aab'', NewMedia ''app.aab'']
             @ chunk_trace ''com.example.app'' ''edit-1''
                 (next_chunk ok_env ''com.example.app'' ''edit-1'' ''app.aab'') 0 (Suc 2)
             @ [TracksUpdate ''com.example.app'' ''edit-1'' ''production''
                  (build_release_config 32 ''production'' (Finite 150) ''notes'' False),
                EditsCommit ''com.example.app'' ''edit-1''])"
proof -
  note inst = rollout_not_validated [OF ok_env_ready(1), of "''com.example.app''" "''app.aab''"
    "''production''" "Finite 150" "''notes''" False "''edit-1''" 2 "[''versionCode'' \<mapsto> 32]" 32]
  have env: "from_service_account_file ok_env = None \<and> build_service ok_env = None"
    "tracks_update ok_env ''com.example.app'' ''edit-1'' ''production''
       (build_release_config 32 ''production'' (Finite 150) ''notes'' False) = None"
    "edits_commit ok_env ''com.example.app'' ''edit-1'' = None"
    "[''versionCode'' \<mapsto> 32] ''versionCode'' = Some (32::int)"
    by (simp_all add: ok_env_def)
  from inst env ok_env_ready have run:
    "upload_to_google_play ok_env ''com.example.app'' ''app.aab'' ''production'' (Finite 150)
       ''notes'' False =
     Some ([LoadCredentials, BuildService, EditsInsert ''com.example.app'',
            GetSize ''app.aab'', NewMedia ''app.aab'']
             @ chunk_trace ''com.example.app'' ''edit-1''
                 (next_chunk ok_env ''com.example.app'' ''edit-1'' ''app.aab'') 0 (Suc 2)
             @ [TracksUpdate ''com.example.app'' ''edit-1'' ''production''
                  (build_release_config 32 ''production'' (Finite 150) ''notes'' False),
                EditsCommit ''com.example.app'' ''edit-1''],
           Return True)"
    by blast
  with inst env(1) have "EditsInsert ''com.example.app''
     \<in> set ([LoadCredentials, BuildService, EditsInsert ''com.example.app'',
            GetSize ''app.aab'', NewMedia ''app.aab'']
             @ chunk_trace ''com.example.app'' ''edit-1''
                 (next_chunk ok_env ''com.example.app'' ''edit-1'' ''app.aab'') 0 (Suc 2)
             @ [TracksUpdate ''com.example.app'' ''edit-1'' ''production''
                  (build_release_config 32 ''production'' (Finite 150) ''notes'' False),
                EditsCommit ''com.example.app'' ''edit-1''])"
    by blast
  moreover have "float_gt (Finite 150) 100" by simp
  ultimately show ?thesis using run ok_env_ready(1) by blast
qed

text \<open>
  The rollout fraction of a rollout percentage below 0 is not always below 0: for the
  float nearest to 0 from below, \<open>-5e-324\<close> (that is \<open>- 2 powi (- 1074)\<close>), the quotient
  underflows, and the descriptor that is sent has status \<open>inProgress\<close> and the fraction
  \<open>-0.0\<close>, which is not below 0.
\<close>

theorem negative_rollout_fraction_counterexample:
  "is_float (Finite (- (2 powi (- 1074)))) \<and>
   float_lt (Finite (- (2 powi (- 1074)))) 0 \<and>
   upload_to_google_play ok_env ''com.example.app'' ''app.aab'' ''production''
       (Finite (- (2 powi (- 1074)))) ''notes'' False
     = Some ([LoadCredentials, BuildService, EditsInsert ''com.example.app'',
            GetSize ''app.aab'', NewMedia ''app.aab'',
            NextChunk ''com.example.app'' ''edit-1'', Progress 40,
            NextChunk ''com.example.app'' ''edit-1'', Progress 80,
            NextChunk ''com.example.app'' ''edit-1'',
            TracksUpdate ''com.example.app'' ''edit-1'' ''production''
              \<lparr>versionCodes = [32],
                 releaseNotes = [\<lparr>language = ''en-US'', note_text = ''notes''\<rparr>],
                 status = ''inProgress'', userFraction = Some NegZero\<rparr>,
            EditsCommit ''com.example.app'' ''edit-1''], Return True) \<and>
   \<not> float_lt NegZero 0"
proof -
  define w :: rat where "w = 2 powi (- 1074)"
  have w: "0 < w" unfolding w_def by (rule zero_less_power_int) simp
  then have lt: "float_lt (Finite (- w)) 0" by simp
  have fl: "is_float (Finite (- w))"
    using is_float_smallest_negative by (simp only: w_def)
  have dv: "div_100 (Finite (- w)) = NegZero"
    using div_100_smallest_negative by (simp only: w_def)
  have "build_release_config 32 ''production'' (Finite (- w)) ''notes'' False
      = \<lparr>versionCodes = [32],
         releaseNotes = [\<lparr>language = ''en-US'', note_text = ''notes''\<rparr>],
         status = ''inProgress'', userFraction = Some NegZero\<rparr>"
    using w dv by (simp add: build_release_config_def)
  with ok_run [of "Finite (- w)" False] lt fl
  have "is_float (Finite (- w)) \<and> float_lt (Finite (- w)) 0 \<and>
   upload_to_google_play ok_env ''com.example.app'' ''app.aab'' ''production''
       (Finite (- w)) ''notes'' False
     = Some ([LoadCredentials, BuildService, EditsInsert ''com.example.app'',
            GetSize ''app.aab'', NewMedia ''app.aab'',
            NextChunk ''com.example.app'' ''edit-1'', Progress 40,
            NextChunk ''com.example.app'' ''edit-1'', Progress 80,
            NextChunk ''com.example.app'' ''edit-1'',
            TracksUpdate ''com.example.app'' ''edit-1'' ''production''
              \<lparr>versionCodes = [32],
                 releaseNotes = [\<lparr>language = ''en-US'', note_text = ''notes''\<rparr>],
                 status = ''inProgress'', userFraction = Some NegZero\<rparr>,
            EditsCommit ''com.example.app'' ''edit-1''], Return True) \<and>
   \<not> float_lt NegZero 0"
    by simp
  then show ?thesis unfolding w_def .
qed

text \<open>
  Claim C10, as the code has it. No rollout percentage raises an error of the function's
  own: when the credentials file exists, the edit is opened, the bundle file is ready and
  the upload ends with a response that has a \<open>versionCode\<close>, the function returns, it has
  sent exactly one release descriptor, and it returns \<open>True\<close> exactly when neither the
  track update of that descriptor nor the commit raises. On the \<open>production\<close> track and
  without \<open>draft\<close>, for a rollout percentage above 100 the descriptor sent has status
  \<open>completed\<close> and no rollout fraction; for a rollout percentage below 0 it has status
  \<open>inProgress\<close> and the rollout fraction \<open>rollout_percentage / 100.0\<close>, which is
  below 0 or, when the quotient underflows, \<open>-0.0\<close>.
\<close>

theorem out_of_range_rollout_submitted:
  assumes "service_account_file_exists env"
    and "edit_opened env p e" and "media_ready env a"
    and "upload_ends env p e a m response"
    and "response ''versionCode'' = Some v"
    and "float_gt r1 100" and "float_lt r2 0"
  shows "(\<exists>tr out c.
            upload_to_google_play env p a ''production'' r1 n False = Some (tr, out) \<and>
            submitted tr = [c] \<and> status c = ''completed'' \<and> userFraction c = None \<and>
            (out = Return True \<longleftrightarrow>
               tracks_update env p e ''production'' c = None \<and> edits_commit env p e = None)) \<and>
         (\<exists>tr out c.
            upload_to_google_play env p a ''production'' r2 n False = Some (tr, out) \<and>
            submitted tr = [c] \<and> status c = ''inProgress'' \<and>
            userFraction c = Some (div_100 r2) \<and>
            (float_lt (div_100 r2) 0 \<or> div_100 r2 = NegZero) \<and>
            (out = Return True \<longleftrightarrow>
               tracks_update env p e ''production'' c = None \<and> edits_commit env p e = None))"
proof
  have "\<not> float_lt r1 100" using assms(6) by (cases r1) simp_all
  then have c1: "status (build_release_config v ''production'' r1 n False) = ''completed''"
    "userFraction (build_release_config v ''production'' r1 n False) = None"
    by (simp_all add: build_release_config_def)
  from run_submits [OF assms(1-5), of "''production''" r1 n False] c1
  show "\<exists>tr out c.
            upload_to_google_play env p a ''production'' r1 n False = Some (tr, out) \<and>
            submitted tr = [c] \<and> status c = ''completed'' \<and> userFraction c = None \<and>
            (out = Return True \<longleftrightarrow>
               tracks_update env p e ''production'' c = None \<and> edits_commit env p e = None)"
    by blast
next
  have lt: "float_lt r2 100" using assms(7) by (cases r2) simp_all
  then have c2: "status (build_release_config v ''production'' r2 n False) = ''inProgress''"
    "userFraction (build_release_config v ''production'' r2 n False) = Some (div_100 r2)"
    by (simp_all add: build_release_config_def)
  have neg: "float_lt (div_100 r2) 0 \<or> div_100 r2 = NegZero"
  proof (cases r2)
    case (Finite q)
    with assms(7) have "q < 0" by simp
    with Finite round_to_float_neg_cases [of "\<bar>q\<bar> / 100"] show ?thesis by simp
  qed (use assms(7) in simp_all)
  from run_submits [OF assms(1-5), of "''production''" r2 n False] c2 neg
  show "\<exists>tr out c.
            upload_to_google_play env p a ''production'' r2 n False = Some (tr, out) \<and>
            submitted tr = [c] \<and> status c = ''inProgress'' \<and>
            userFraction c = Some (div_100 r2) \<and>
            (float_lt (div_100 r2) 0 \<or> div_100 r2 = NegZero) \<and>
            (out = Return True \<longleftrightarrow>
               tracks_update env p e ''production'' c = None \<and> edits_commit env p e = None)"
    by blast
qed

theorem out_of_range_rollout_submitted_witness:
  "float_gt (Finite 150) 100 \<and> float_lt (Finite (- 5)) 0 \<and>
   (\<exists>tr out c.
      upload_to_google_play ok_env ''com.example.app'' ''app.aab'' ''production'' (Finite 150)
         ''notes'' False = Some (tr, out) \<and>
      submitted tr = [c] \<and> status c = ''completed'' \<and> userFraction c = None \<and>
      (out = Return True \<longleftrightarrow>
         tracks_update ok_env ''com.example.app'' ''edit-1'' ''production'' c = None \<and>
         edits_commit ok_env ''com.example.app'' ''edit-1'' = None)) \<and>
   (\<exists>tr out c.
      upload_to_google_play ok_env ''com.example.app'' ''app.aab'' ''production'' (Finite (- 5))
         ''notes'' False = Some (tr, out) \<and>
      submitted tr = [c] \<and> status c = ''inProgress'' \<and>
      userFraction c = Some (div_100 (Finite (- 5))) \<and>
      (float_lt (div_100 (Finite (- 5))) 0 \<or> div_100 (Finite (- 5)) = NegZero) \<and>
      (out = Return True \<longleftrightarrow>
         tracks_update ok_env ''com.example.app'' ''edit-1'' ''production'' c = None \<and>
         edits_commit ok_env ''com.example.app'' ''edit-1'' = None))"
proof -
  have h1: "float_gt (Finite 150) 100" and h2: "float_lt (Finite (- 5)) 0" by simp_all
  have vc: "[''versionCode'' \<mapsto> 32] ''versionCode'' = Some (32::int)" by simp
  from out_of_range_rollout_submitted [OF ok_env_ready vc h1 h2, of "''notes''"] h1 h2
  show ?thesis by blast
qed

end
